theory Spec2Isabelle
  imports Complex_Main "HOL-Library.Word" "HOL-Library.AList"
begin

section \<open>JavaScript values\<close>

text \<open>
  A JavaScript string is a sequence of 16-bit code units. ASCII literals of the source are
  written with \<open>lit\<close>; the Chinese literals are given by their code units.
\<close>

type_synonym jsstring = "16 word list"

definition lit :: "string \<Rightarrow> jsstring" where
  "lit s = map of_char s"

text \<open>
  Numbers are doubles: a finite number other than \<open>-0\<close> is the rational that it is.
\<close>

datatype jsnum = NaN | PosInf | NegInf | NegZero | Fin rat

datatype jsval =
    Undefined
  | Null
  | Boolean bool
  | Number jsnum
  | String jsstring
  | Array "jsval list"
  | Object "(jsstring \<times> jsval) list"

datatype error = TypeError | SyntaxError

text \<open>ToBoolean: the falsy values are undefined, null, false, 0, -0, NaN and the empty string.\<close>

fun truthy :: "jsval \<Rightarrow> bool" where
  "truthy Undefined = False"
| "truthy Null = False"
| "truthy (Boolean b) = b"
| "truthy (Number n) = (n \<noteq> NaN \<and> n \<noteq> NegZero \<and> n \<noteq> Fin 0)"
| "truthy (String s) = (s \<noteq> [])"
| "truthy (Array _) = True"
| "truthy (Object _) = True"

text \<open>\<open>a || b\<close> on values that are already evaluated.\<close>

definition js_or :: "jsval \<Rightarrow> jsval \<Rightarrow> jsval" where
  "js_or a b = (if truthy a then a else b)"

text \<open>
  Property read \<open>v.k\<close> for the keys the handlers read (\<open>content\<close>, \<open>riskScore\<close>,
  \<open>summary\<close>, \<open>issues\<close>, \<open>modelNote\<close>, ...): none of them is an index or a property of
  a built-in prototype, so on a primitive or an array the read gives undefined, and on
  undefined or null it throws a TypeError. An object is the list of its own properties,
  each key once.
\<close>

fun get_prop :: "jsval \<Rightarrow> jsstring \<Rightarrow> error + jsval" where
  "get_prop Undefined k = Inl TypeError"
| "get_prop Null k = Inl TypeError"
| "get_prop (Object kvs) k = Inr (case map_of kvs k of None \<Rightarrow> Undefined | Some v \<Rightarrow> v)"
| "get_prop v k = Inr Undefined"

fun is_number :: "jsval \<Rightarrow> bool" where
  "is_number (Number _) = True"
| "is_number _ = False"

fun is_string :: "jsval \<Rightarrow> bool" where
  "is_string (String _) = True"
| "is_string _ = False"

fun is_array :: "jsval \<Rightarrow> bool" where
  "is_array (Array _) = True"
| "is_array _ = False"

definition bind_result :: "error + 'a \<Rightarrow> ('a \<Rightarrow> error + 'b) \<Rightarrow> error + 'b" where
  "bind_result r f = (case r of Inl e \<Rightarrow> Inl e | Inr v \<Rightarrow> f v)"

section \<open>server.js: the response of /api/review\<close>

record review_response =
  riskScore :: jsval
  summary :: jsval
  issues :: jsval
  modelNote :: jsval

text \<open>
  Lines 129-134 of server.js: the four property reads happen in order, and the first one
  that throws ends the evaluation of the object literal.
\<close>

definition normalize_payload :: "jsval \<Rightarrow> error + review_response" where
  "normalize_payload parsed =
     bind_result (get_prop parsed (lit ''riskScore'')) (\<lambda>rs.
     bind_result (get_prop parsed (lit ''summary'')) (\<lambda>sm.
     bind_result (get_prop parsed (lit ''issues'')) (\<lambda>iss.
     bind_result (get_prop parsed (lit ''modelNote'')) (\<lambda>mn.
       Inr \<lparr> riskScore = (if is_number rs then rs else Null),
             summary = js_or sm (String []),
             issues = (if is_array iss then iss else Array []),
             modelNote = js_or mn (String []) \<rparr>))))"

text \<open>The value of the read \<open>v.k\<close> where it does not throw.\<close>

definition own_prop :: "jsval \<Rightarrow> jsstring \<Rightarrow> jsval" where
  "own_prop v k =
     (case v of
        Object kvs \<Rightarrow> (case map_of kvs k of None \<Rightarrow> Undefined | Some x \<Rightarrow> x)
      | _ \<Rightarrow> Undefined)"

section \<open>script.js: the data of the project store\<close>

text \<open>
  The status and risk-level strings of the source form two closed sets of constants:
  \<open>Gao\<close> is the string U+9AD8 (high), \<open>Zhong\<close> is U+4E2D (medium), \<open>Di\<close> is U+4F4E (low).
\<close>

datatype status = DRAFT | AI_REVIEWING | AI_COMPLETED | DEPT_REVIEWING | APPROVED

datatype risk_level = Gao | Zhong | Di

record risk_item =
  id_item :: jsstring
  category :: jsstring
  suspectedText :: jsstring
  analysis :: jsstring
  riskLevel :: risk_level
  suggestedAdjustment :: jsstring
  lawReference :: jsstring

record disposition =
  type_d :: jsstring
  desc :: jsstring

text \<open>
  \<open>actions\<close> is a JavaScript object keyed by risk id: an association list in insertion
  order, where assigning to a present key replaces its value in place and assigning to a new
  key appends it (\<open>AList.update\<close>). The keys are ids made by \<open>generateId('R')\<close>, so
  none of them is an array index, which an object would list first.
\<close>

record ai_review =
  overallRisk :: risk_level
  riskItems :: "risk_item list"
  actions :: "(jsstring \<times> disposition) list"

record project =
  id_project :: jsstring
  projectName :: jsstring
  policyTitle :: jsstring
  org :: jsstring
  draftType :: jsstring
  scope :: jsstring
  releaseDate :: jsstring
  isSecret :: bool
  applyException :: bool
  createdAt :: jsstring
  updatedAt :: jsstring
  status :: status
  aiReview :: "ai_review option"

section \<open>script.js: createDummyAIResults\<close>

definition categories :: "jsstring list" where
  "categories =
    [[0x5E02, 0x573A, 0x51C6, 0x5165],
     [0x8981, 0x7D20, 0x6D41, 0x52A8],
     [0x7ECF, 0x8425, 0x6210, 0x672C],
     [0x7ECF, 0x8425, 0x884C, 0x4E3A]]"

definition riskLevels :: "risk_level list" where
  "riskLevels = [Gao, Zhong, Di]"

definition sampleTexts :: "jsstring list" where
  "sampleTexts =
    [[0x7B2C, 0x516B, 0x6761, 0xFF1A, 0x672C, 0x5730, 0x533A, 0x4F01, 0x4E1A, 0x4EAB, 0x6709, 0x4F18, 0x5148, 0x91C7, 0x8D2D, 0x6743],
     [0x7B2C, 0x4E09, 0x6761, 0xFF1A, 0x5BF9, 0x5916, 0x5730, 0x4F01, 0x4E1A, 0x6536, 0x53D6, 0x989D, 0x5916, 0x4FDD, 0x8BC1, 0x91D1],
     [0x7B2C, 0x4E94, 0x6761, 0xFF1A, 0x8BBE, 0x5B9A, 0x9650, 0x5236, 0x6027, 0x884C, 0x4E1A, 0x51C6, 0x5165, 0x6761, 0x4EF6],
     [0x7B2C, 0x4E8C, 0x6761, 0xFF1A, 0x5BF9, 0x7279, 0x5B9A, 0x884C, 0x4E1A, 0x5B9E, 0x884C, 0x4EA7, 0x91CF, 0x914D, 0x989D]]"

definition analysisSamples :: "jsstring list" where
  "analysisSamples =
    [[0x53EF, 0x80FD, 0x6784, 0x6210, 0x5730, 0x65B9, 0x4FDD, 0x62A4, 0x6216, 0x6392, 0x4ED6, 0x6027, 0x63AA, 0x65BD, 0xFF0C, 0x9650, 0x5236, 0x5E02, 0x573A, 0x51C6, 0x5165],
     [0x53EF, 0x80FD, 0x5F71, 0x54CD, 0x8981, 0x7D20, 0x81EA, 0x7531, 0x6D41, 0x52A8, 0xFF0C, 0x6D89, 0x5ACC, 0x5DEE, 0x522B, 0x5F85, 0x9047],
     [0x53EF, 0x80FD, 0x63D0, 0x9AD8, 0x4F01, 0x4E1A, 0x7ECF, 0x8425, 0x6210, 0x672C, 0xFF0C, 0x9020, 0x6210, 0x4E0D, 0x516C, 0x5E73, 0x7ADE, 0x4E89],
     [0x53EF, 0x80FD, 0x9650, 0x5236, 0x7ECF, 0x8425, 0x8005, 0x7684, 0x6B63, 0x5E38, 0x7ECF, 0x8425, 0x884C, 0x4E3A]]"

definition adjustmentSamples :: "jsstring list" where
  "adjustmentSamples =
    [[0x5EFA, 0x8BAE, 0x5220, 0x9664, 0x5DEE, 0x522B, 0x5F85, 0x9047, 0x6761, 0x6B3E, 0xFF0C, 0x6539, 0x4E3A, 0x7EDF, 0x4E00, 0x6807, 0x51C6],
     [0x5EFA, 0x8BAE, 0x53D6, 0x6D88, 0x989D, 0x5916, 0x4FDD, 0x8BC1, 0x91D1, 0x8981, 0x6C42, 0xFF0C, 0x5B9E, 0x884C, 0x5E73, 0x7B49, 0x51C6, 0x5165],
     [0x5EFA, 0x8BAE, 0x5B8C, 0x5584, 0x6761, 0x6B3E, 0x8868, 0x8FF0, 0xFF0C, 0x907F, 0x514D, 0x9650, 0x5236, 0x6027, 0x63AA, 0x65BD],
     [0x5EFA, 0x8BAE, 0x6309, 0x7167, 0x56FD, 0x5BB6, 0x76F8, 0x5173, 0x6CD5, 0x89C4, 0x8C03, 0x6574]]"

definition lawRefSamples :: "jsstring list" where
  "lawRefSamples =
    [[0x300A, 0x53CD, 0x4E0D, 0x6B63, 0x5F53, 0x7ADE, 0x4E89, 0x6CD5, 0x300B, 0x7B2C, 0x516B, 0x6761],
     [0x300A, 0x884C, 0x653F, 0x8BB8, 0x53EF, 0x6CD5, 0x300B, 0x7B2C, 0x5341, 0x4E94, 0x6761],
     [0x300A, 0x516C, 0x5E73, 0x7ADE, 0x4E89, 0x5BA1, 0x67E5, 0x529E, 0x6CD5, 0x300B, 0x7B2C, 0x4E8C, 0x6761],
     [0x300A, 0x5E02, 0x573A, 0x4E3B, 0x4F53, 0x767B, 0x8BB0, 0x7BA1, 0x7406, 0x6761, 0x4F8B, 0x300B, 0x7B2C, 0x5341, 0x6761]]"

text \<open>
  The environment of one call. \<open>generateId\<close> reads the clock and one random number and
  prints both in base 36; the two printed parts are inputs.
\<close>

record id_source =
  random_part :: jsstring
  time_part :: jsstring

definition generateId :: "jsstring \<Rightarrow> id_source \<Rightarrow> jsstring" where
  "generateId prefix src = prefix @ random_part src @ time_part src"

text \<open>
  Numbers are doubles (IEEE 754 binary64), here the rationals that are doubles. The product
  of two doubles is the exact product rounded to the nearest double, a tie to the one with
  an even significand. \<open>binade_top x\<close> is the power of two above \<open>x\<close>, from \<open>2^-1021\<close>
  (below it the doubles are subnormal and keep the spacing) to \<open>2^1024\<close>; the doubles
  below it are spaced by \<open>ulp x\<close>, a \<open>2^53\<close>-th of it. Values of \<open>2^1024\<close> and more have
  no double; no product here comes near.
\<close>

fun binade_up :: "nat \<Rightarrow> rat \<Rightarrow> rat \<Rightarrow> rat" where
  "binade_up 0 hi x = hi"
| "binade_up (Suc j) hi x = (if x < hi then hi else binade_up j (2 * hi) x)"

fun binade_down :: "nat \<Rightarrow> rat \<Rightarrow> rat \<Rightarrow> rat" where
  "binade_down 0 hi x = hi"
| "binade_down (Suc j) hi x = (if hi \<le> 2 * x then hi else binade_down j (hi / 2) x)"

definition binade_top :: "rat \<Rightarrow> rat" where
  "binade_top x = (if 1 \<le> x then binade_up 1023 2 x else binade_down 1021 1 x)"

definition ulp :: "rat \<Rightarrow> rat" where
  "ulp x = binade_top x / 2 ^ 53"

definition round_half_even :: "rat \<Rightarrow> int" where
  "round_half_even q =
     (let f = \<lfloor>q\<rfloor>; d = q - of_int f
      in if d < 1/2 then f else if 1/2 < d then f + 1 else if even f then f else f + 1)"

definition round_mag :: "rat \<Rightarrow> rat" where
  "round_mag x = (if x = 0 then 0 else of_int (round_half_even (x / ulp x)) * ulp x)"

definition round_double :: "rat \<Rightarrow> rat" where
  "round_double x = (if x < 0 then - round_mag (- x) else round_mag x)"

definition is_double :: "rat \<Rightarrow> bool" where
  "is_double x \<longleftrightarrow> round_double x = x \<and> \<bar>x\<bar> < binade_top \<bar>x\<bar>"

text \<open>
  \<open>Math.random()\<close> returns a double in \<open>[0, 1)\<close>; \<open>Math.floor(Math.random() * n)\<close> is
  the integer part of the rounded product.
\<close>

definition random_value :: "rat \<Rightarrow> bool" where
  "random_value r \<longleftrightarrow> is_double r \<and> 0 \<le> r \<and> r < 1"

definition floor_times :: "rat \<Rightarrow> nat \<Rightarrow> nat" where
  "floor_times r n = nat \<lfloor>round_double (r * of_nat n)\<rfloor>"

text \<open>The draws of one call: the first random number, then for the \<open>i\<close>-th pass of the
  loop the random number of \<open>idx\<close> and the source of the id.\<close>

record draws =
  count_draw :: rat
  item_draw :: "nat \<Rightarrow> rat \<times> id_source"

definition make_item :: "draws \<Rightarrow> nat \<Rightarrow> risk_item" where
  "make_item d i =
     (let idx = floor_times (fst (item_draw d i)) (length categories);
          ident = generateId (lit ''R'') (snd (item_draw d i))
      in \<lparr> id_item = ident,
           category = categories ! idx,
           suspectedText = sampleTexts ! (i mod length sampleTexts),
           analysis = analysisSamples ! idx,
           riskLevel = riskLevels ! (i mod length riskLevels),
           suggestedAdjustment = adjustmentSamples ! idx,
           lawReference = lawRefSamples ! idx \<rparr>)"

fun order :: "risk_level \<Rightarrow> nat" where
  "order Gao = 3"
| "order Zhong = 2"
| "order Di = 1"

definition highest_of :: "risk_item list \<Rightarrow> risk_level" where
  "highest_of items =
     foldl (\<lambda>highest item. if order (riskLevel item) > order highest then riskLevel item else highest)
       Di items"

definition createDummyAIResults :: "draws \<Rightarrow> ai_review" where
  "createDummyAIResults d =
     (let numItems = floor_times (count_draw d) 3 + 2;
          items = map (make_item d) [0..<numItems]
      in \<lparr> overallRisk = highest_of items, riskItems = items, actions = [] \<rparr>)"


section \<open>script.js: the operations on the project store\<close>

text \<open>
  \<open>String.prototype.trim\<close> removes the white space and line terminators of ECMAScript
  from both ends.
\<close>

definition is_space :: "16 word \<Rightarrow> bool" where
  "is_space c \<longleftrightarrow>
     c \<in> {0x9, 0xA, 0xB, 0xC, 0xD, 0x20, 0xA0, 0x1680, 0x2028, 0x2029, 0x202F, 0x205F, 0x3000, 0xFEFF}
     \<or> (0x2000 \<le> c \<and> c \<le> 0x200A)"

definition trim :: "jsstring \<Rightarrow> jsstring" where
  "trim s = rev (dropWhile is_space (rev (dropWhile is_space s)))"

text \<open>
  The state the functions of script.js read and write: the collection stored under
  \<open>ai_projects\<close>, here as the project records that the stored text decodes to
  (\<open>getProjects_st\<close> and \<open>saveProjects_st\<close> read and write this field; the functions
  \<open>getProjects\<close> and \<open>saveProjects\<close> on the stored text itself, and the encoding of
  the records, are in the section on persistence),
  the messages shown with \<open>alert\<close>, oldest first, and the callbacks registered with
  \<open>setTimeout\<close> that have not run yet. A callback of \<open>startAIReview\<close> holds the
  \<open>projects\<close> array and the \<open>project\<close> object of its call; the object is the first
  element of the array with the id \<open>projectId\<close>. Writes to the page are not part of the state.
\<close>

record app_state =
  storage :: "project list"
  alerts :: "jsstring list"
  timers :: "(project list \<times> jsstring) list"

definition getProjects_st :: "app_state \<Rightarrow> project list" where
  "getProjects_st st = storage st"

definition saveProjects_st :: "project list \<Rightarrow> app_state \<Rightarrow> app_state" where
  "saveProjects_st projects st = st\<lparr>storage := projects\<rparr>"

definition alert :: "jsstring \<Rightarrow> app_state \<Rightarrow> app_state" where
  "alert msg st = st\<lparr>alerts := alerts st @ [msg]\<rparr>"

text \<open>\<open>projects.find((p) => p.id === id)\<close> gives the first match; an assignment to a field
  of the object found changes that element of the array.\<close>

definition find_project :: "jsstring \<Rightarrow> project list \<Rightarrow> project option" where
  "find_project ident projects = find (\<lambda>p. id_project p = ident) projects"

fun update_found :: "jsstring \<Rightarrow> (project \<Rightarrow> project) \<Rightarrow> project list \<Rightarrow> project list" where
  "update_found ident f [] = []"
| "update_found ident f (p # ps) =
     (if id_project p = ident then f p # ps else p # update_found ident f ps)"

record create_form =
  projectName_f :: jsstring
  policyTitle_f :: jsstring
  org_f :: jsstring
  draftType_f :: jsstring
  scope_f :: jsstring
  releaseDate_f :: jsstring
  isSecret_f :: bool
  applyException_f :: bool

definition msg_fill_in :: jsstring where
  "msg_fill_in = [0x8BF7, 0x586B, 0x5199, 0x5B8C, 0x6574, 0x7684, 0x9879, 0x76EE, 0x540D, 0x79F0,
                  0x548C, 0x6587, 0x4EF6, 0x540D, 0x79F0]"

definition msg_not_found :: jsstring where
  "msg_not_found = [0x672A, 0x627E, 0x5230, 0x8BE5, 0x9879, 0x76EE]"

definition msg_saved :: jsstring where
  "msg_saved = [0x5DF2, 0x4FDD, 0x5B58, 0x5904, 0x7406, 0x610F, 0x89C1]"

definition msg_review_first :: jsstring where
  "msg_review_first = [0x8BF7, 0x5148, 0x5B8C, 0x6210, 0x20, 0x41, 0x49, 0x20, 0x5BA1, 0x67E5]"

definition msg_submitted :: jsstring where
  "msg_submitted = [0x5DF2, 0x63D0, 0x4EA4, 0x81F3, 0x672C, 0x5355, 0x4F4D, 0x5BA1, 0x6838, 0x4EBA]"

text \<open>\<open>now\<close> is \<open>formatDate(new Date())\<close> at the time of the call.\<close>

definition handleCreateProject :: "create_form \<Rightarrow> id_source \<Rightarrow> jsstring \<Rightarrow> app_state \<Rightarrow> app_state" where
  "handleCreateProject form src now st =
     (let name = trim (projectName_f form);
          title = trim (policyTitle_f form)
      in if name = [] \<or> title = [] then alert msg_fill_in st
         else
           let projects = getProjects_st st;
               newProject =
                 \<lparr> id_project = generateId (lit ''P'') src,
                   projectName = name,
                   policyTitle = title,
                   org = trim (org_f form),
                   draftType = draftType_f form,
                   scope = trim (scope_f form),
                   releaseDate = releaseDate_f form,
                   isSecret = isSecret_f form,
                   applyException = applyException_f form,
                   createdAt = now,
                   updatedAt = now,
                   status = DRAFT,
                   aiReview = None \<rparr>
           in saveProjects_st (projects @ [newProject]) st)"

definition displayProjectDetail :: "jsstring option \<Rightarrow> app_state \<Rightarrow> app_state" where
  "displayProjectDetail ident st =
     (case ident of
        None \<Rightarrow> st
      | Some i \<Rightarrow>
          (if i = [] then st
           else case find_project i (getProjects_st st) of
                  None \<Rightarrow> alert msg_not_found st
                | Some project \<Rightarrow> st))"

definition startAIReview :: "jsstring \<Rightarrow> jsstring \<Rightarrow> app_state \<Rightarrow> app_state" where
  "startAIReview projectId now st =
     (let projects = getProjects_st st
      in case find_project projectId projects of
           None \<Rightarrow> st
         | Some project \<Rightarrow>
             let projects1 = update_found projectId
                               (\<lambda>p. p\<lparr>status := AI_REVIEWING, updatedAt := now\<rparr>) projects;
                 st1 = saveProjects_st projects1 st
             in st1\<lparr>timers := timers st1 @ [(projects1, projectId)]\<rparr>)"

text \<open>The callback that \<open>startAIReview\<close> hands to \<open>setTimeout\<close>, on its captured
  \<open>projects\<close> and \<open>project\<close>.\<close>

definition review_callback :: "project list \<times> jsstring \<Rightarrow> draws \<Rightarrow> jsstring \<Rightarrow> app_state \<Rightarrow> app_state" where
  "review_callback captured d now st =
     (let result = createDummyAIResults d;
          projects1 = update_found (snd captured)
                        (\<lambda>p. p\<lparr>aiReview := Some result, status := AI_COMPLETED, updatedAt := now\<rparr>)
                        (fst captured)
      in saveProjects_st projects1 st)"

text \<open>The \<open>k\<close>-th pending callback runs and is pending no more.\<close>

definition run_timer :: "nat \<Rightarrow> draws \<Rightarrow> jsstring \<Rightarrow> app_state \<Rightarrow> app_state" where
  "run_timer k d now st =
     (if k < length (timers st)
      then review_callback (timers st ! k) d now
             (st\<lparr>timers := take k (timers st) @ drop (Suc k) (timers st)\<rparr>)
      else st)"

text \<open>
  The form of the detail page as \<open>saveRiskActions\<close> reads it: the
  \<open>select[data-risk-id]\<close> elements in document order, each with its attribute and its
  value, and the \<open>textarea\<close> elements with their \<open>data-desc-id\<close> and value, of which
  \<open>querySelector\<close> gives the first with the id asked for. The ids are those that the
  page was rendered with, letters and digits, so the selector built from an id is well formed.
\<close>

record action_form =
  selects :: "(jsstring \<times> jsstring) list"
  textareas :: "(jsstring \<times> jsstring) list"

definition save_select :: "action_form \<Rightarrow> (jsstring \<times> disposition) list \<Rightarrow> jsstring \<times> jsstring
    \<Rightarrow> (jsstring \<times> disposition) list" where
  "save_select form acts sel =
     (let riskId = fst sel;
          ty = snd sel;
          d = (case map_of (textareas form) riskId of None \<Rightarrow> [] | Some v \<Rightarrow> trim v)
      in if ty \<noteq> [] then AList.update riskId \<lparr> type_d = ty, desc = d \<rparr> acts else acts)"

definition save_actions :: "action_form \<Rightarrow> (jsstring \<times> disposition) list \<Rightarrow> (jsstring \<times> disposition) list" where
  "save_actions form acts = foldl (save_select form) acts (selects form)"

definition saveRiskActions :: "jsstring \<Rightarrow> action_form \<Rightarrow> jsstring \<Rightarrow> app_state \<Rightarrow> app_state" where
  "saveRiskActions projectId form now st =
     (let projects = getProjects_st st
      in case find_project projectId projects of
           None \<Rightarrow> st
         | Some project \<Rightarrow>
             (case aiReview project of
                None \<Rightarrow> st
              | Some review \<Rightarrow>
                  let acts = save_actions form (actions review);
                      projects1 = update_found projectId
                        (\<lambda>p. p\<lparr>aiReview := Some (review\<lparr>actions := acts\<rparr>), updatedAt := now\<rparr>)
                        projects
                  in alert msg_saved (saveProjects_st projects1 st)))"

definition submitForDepartmentReview :: "jsstring \<Rightarrow> jsstring \<Rightarrow> app_state \<Rightarrow> app_state" where
  "submitForDepartmentReview projectId now st =
     (let projects = getProjects_st st
      in case find_project projectId projects of
           None \<Rightarrow> st
         | Some project \<Rightarrow>
             (case aiReview project of
                None \<Rightarrow> alert msg_review_first st
              | Some review \<Rightarrow>
                  let projects1 = update_found projectId
                        (\<lambda>p. p\<lparr>status := DEPT_REVIEWING, updatedAt := now\<rparr>) projects
                  in alert msg_submitted (saveProjects_st projects1 st)))"

definition initial_state :: app_state where
  "initial_state = \<lparr> storage = [], alerts = [], timers = [] \<rparr>"

text \<open>
  The states that sequences of the operations reach from the empty store. The functions run
  from the handlers of the pages: \<open>startAIReview\<close> from the click on the start button, which
  \<open>displayProjectDetail\<close> binds only when the project shown has no review
  (\<open>if (!project.aiReview)\<close>, lines 145-150); \<open>saveRiskActions\<close> and
  \<open>submitForDepartmentReview\<close> are bound for every project shown and check the project
  themselves.
\<close>

inductive reachable :: "app_state \<Rightarrow> bool" where
  r_init: "reachable initial_state"
| r_create: "reachable st \<Longrightarrow> reachable (handleCreateProject form src now st)"
| r_start: "reachable st \<Longrightarrow> find_project projectId (storage st) = Some p \<Longrightarrow> aiReview p = None
            \<Longrightarrow> reachable (startAIReview projectId now st)"
| r_complete: "reachable st \<Longrightarrow> reachable (run_timer k d now st)"
| r_save: "reachable st \<Longrightarrow> reachable (saveRiskActions projectId form now st)"
| r_submit: "reachable st \<Longrightarrow> reachable (submitForDepartmentReview projectId now st)"


text \<open>
  What the form says for one \<open>select\<close> and for a risk id: the disposition of the last
  \<open>select\<close> of that id with a type chosen, if there is one.
\<close>

definition form_disposition :: "action_form \<Rightarrow> jsstring \<times> jsstring \<Rightarrow> disposition" where
  "form_disposition form sel =
     \<lparr> type_d = snd sel,
       desc = (case map_of (textareas form) (fst sel) of None \<Rightarrow> [] | Some v \<Rightarrow> trim v) \<rparr>"

definition chosen :: "action_form \<Rightarrow> jsstring \<Rightarrow> disposition option" where
  "chosen form k =
     (case filter (\<lambda>sel. fst sel = k \<and> snd sel \<noteq> []) (rev (selects form)) of
        [] \<Rightarrow> None
      | sel # _ \<Rightarrow> Some (form_disposition form sel))"

definition actions_of :: "jsstring \<Rightarrow> app_state \<Rightarrow> (jsstring \<times> disposition) list option" where
  "actions_of projectId st =
     (case find_project projectId (storage st) of
        None \<Rightarrow> None
      | Some p \<Rightarrow> (case aiReview p of None \<Rightarrow> None | Some review \<Rightarrow> Some (actions review)))"

text \<open>Assignments \<open>al[k] = v\<close> in sequence, and the value a sequence of them leaves at a key.\<close>

definition assign_all :: "('k \<times> 'v) list \<Rightarrow> ('k \<times> 'v) list \<Rightarrow> ('k \<times> 'v) list" where
  "assign_all g al = foldl (\<lambda>a kd. AList.update (fst kd) (snd kd) a) al g"

definition last_value :: "('k \<times> 'v) list \<Rightarrow> 'k \<Rightarrow> 'v \<Rightarrow> 'v" where
  "last_value g k v = foldl (\<lambda>v kd. if fst kd = k then snd kd else v) v g"

section \<open>JSON.parse and JSON.stringify\<close>

text \<open>
  \<open>JSON.parse\<close> after the lexical and the syntactic grammar of ECMAScript: the text is cut
  into tokens (white space between them is skipped), and the tokens are parsed to a value.
  \<open>None\<close> is the SyntaxError. A number literal is read as the double nearest to its
  value, \<open>Infinity\<close> from \<open>2^1024\<close> on. An object takes its members in the order of the
  text, a key that comes again replaces the value at its first place; keys that are array
  indices, which JavaScript lists first, keep their place here too.
\<close>

datatype token =
    LBRACE | RBRACE | LBRACK | RBRACK | COLON | COMMA
  | TSTRING jsstring | TNUMBER jsnum | TTRUE | TFALSE | TNULL

definition is_json_space :: "16 word \<Rightarrow> bool" where
  "is_json_space c \<longleftrightarrow> c = 0x9 \<or> c = 0xA \<or> c = 0xD \<or> c = 0x20"

definition is_digit :: "16 word \<Rightarrow> bool" where
  "is_digit c \<longleftrightarrow> 0x30 \<le> c \<and> c \<le> 0x39"

definition hex_val :: "16 word \<Rightarrow> 16 word option" where
  "hex_val c =
     (if 0x30 \<le> c \<and> c \<le> 0x39 then Some (c - 0x30)
      else if 0x41 \<le> c \<and> c \<le> 0x46 then Some (c - 0x41 + 10)
      else if 0x61 \<le> c \<and> c \<le> 0x66 then Some (c - 0x61 + 10)
      else None)"

fun hex4 :: "jsstring \<Rightarrow> 16 word option" where
  "hex4 [a, b, c, d] =
     (case (hex_val a, hex_val b, hex_val c, hex_val d) of
        (Some x, Some y, Some z, Some w) \<Rightarrow> Some (((x * 16 + y) * 16 + z) * 16 + w)
      | _ \<Rightarrow> None)"
| "hex4 _ = None"

definition unescape :: "16 word \<Rightarrow> 16 word option" where
  "unescape e =
     (if e = 0x22 then Some 0x22
      else if e = 0x5C then Some 0x5C
      else if e = 0x2F then Some 0x2F
      else if e = 0x62 then Some 0x8
      else if e = 0x66 then Some 0xC
      else if e = 0x6E then Some 0xA
      else if e = 0x72 then Some 0xD
      else if e = 0x74 then Some 0x9
      else None)"

text \<open>The characters of a string literal after its opening quote, up to the closing one.\<close>

fun lex_string :: "jsstring \<Rightarrow> (jsstring \<times> jsstring) option" where
  "lex_string [] = None"
| "lex_string (c # cs) =
     (if c = 0x22 then Some ([], cs)
      else if c = 0x5C then
        (case cs of
           [] \<Rightarrow> None
         | e # es \<Rightarrow>
             if e = 0x75 then
               (case hex4 (take 4 es) of
                  None \<Rightarrow> None
                | Some u \<Rightarrow>
                    (case lex_string (drop 4 es) of
                       None \<Rightarrow> None
                     | Some (str, rest) \<Rightarrow> Some (u # str, rest)))
             else
               (case unescape e of
                  None \<Rightarrow> None
                | Some u \<Rightarrow>
                    (case lex_string es of
                       None \<Rightarrow> None
                     | Some (str, rest) \<Rightarrow> Some (u # str, rest))))
      else if c < 0x20 then None
      else (case lex_string cs of
              None \<Rightarrow> None
            | Some (str, rest) \<Rightarrow> Some (c # str, rest)))"

definition digits_val :: "jsstring \<Rightarrow> int" where
  "digits_val ds = foldl (\<lambda>a c. 10 * a + (uint c - 0x30)) 0 ds"

definition lex_frac :: "jsstring \<Rightarrow> (jsstring \<times> jsstring) option" where
  "lex_frac s =
     (case s of
        [] \<Rightarrow> Some ([], [])
      | c # cs \<Rightarrow>
          if c = 0x2E then
            (let fd = takeWhile is_digit cs
             in if fd = [] then None else Some (fd, drop (length fd) cs))
          else Some ([], s))"

definition lex_exp :: "jsstring \<Rightarrow> (int \<times> jsstring) option" where
  "lex_exp s =
     (case s of
        [] \<Rightarrow> Some (0, [])
      | c # cs \<Rightarrow>
          if c = 0x65 \<or> c = 0x45 then
            (let neg = (cs \<noteq> [] \<and> hd cs = 0x2D);
                 cs1 = (if cs \<noteq> [] \<and> (hd cs = 0x2B \<or> hd cs = 0x2D) then tl cs else cs);
                 ed = takeWhile is_digit cs1
             in if ed = [] then None
                else Some (if neg then - digits_val ed else digits_val ed,
                           drop (length ed) cs1))
          else Some (0, s))"

text \<open>\<open>2^1024\<close>, the least power of two that is not a double.\<close>

definition double_limit :: rat where
  "double_limit = 179769313486231590772930519078902473361797697894230657273430081157732675805500963132708477322407536021120113879871393357658789768814416622492847430639474124377767893424865485276302219601246094119453082952085005768838150682342462881473913110540827237163350510684586298239947245938479716304835356329624224137216"

definition mk_num :: "bool \<Rightarrow> jsstring \<Rightarrow> jsstring \<Rightarrow> int \<Rightarrow> jsnum" where
  "mk_num neg ip fd ex =
     (let m = of_int (digits_val ip) + of_int (digits_val fd) / 10 ^ length fd;
          v = (if 0 \<le> ex then m * 10 ^ nat ex else m / 10 ^ nat (- ex));
          y = round_mag v
      in if double_limit \<le> y then (if neg then NegInf else PosInf)
         else if y = 0 then (if neg then NegZero else Fin 0)
         else Fin (if neg then - y else y))"

definition lex_number :: "jsstring \<Rightarrow> (jsnum \<times> jsstring) option" where
  "lex_number s =
     (let neg = (s \<noteq> [] \<and> hd s = 0x2D);
          s1 = (if neg then tl s else s);
          ip = (if s1 \<noteq> [] \<and> hd s1 = 0x30 then [0x30] else takeWhile is_digit s1)
      in if ip = [] then None
         else case lex_frac (drop (length ip) s1) of
                None \<Rightarrow> None
              | Some (fd, s3) \<Rightarrow>
                  (case lex_exp s3 of
                     None \<Rightarrow> None
                   | Some (ex, s4) \<Rightarrow> Some (mk_num neg ip fd ex, s4)))"

lemma lex_string_length: "lex_string s = Some (str, rest) \<Longrightarrow> length rest < length s"
proof (induction s arbitrary: str rest rule: lex_string.induct)
  case 1
  then show ?case by simp
next
  case (2 c cs)
  show ?case
  proof (cases "c = 0x22")
    case True
    with "2.prems" show ?thesis by simp
  next
    case nq: False
    show ?thesis
    proof (cases "c = 0x5C")
      case True
      with nq "2.prems" obtain e es where cs: "cs = e # es" by (cases cs) auto
      show ?thesis
      proof (cases "e = 0x75")
        case u: True
        with nq True cs "2.prems" obtain w str' where
          "hex4 (take 4 es) = Some w" "lex_string (drop 4 es) = Some (str', rest)"
          by (auto split: option.splits)
        with "2.IH"(1) [OF nq True cs u] have "length rest < length (drop 4 es)" by blast
        with cs show ?thesis by simp
      next
        case nu: False
        with nq True cs "2.prems" obtain w str' where
          w: "unescape e = Some w" "lex_string es = Some (str', rest)"
          by (auto split: option.splits)
        with "2.IH"(2) [OF nq True cs nu] have "length rest < length es" by blast
        with cs show ?thesis by simp
      qed
    next
      case nb: False
      with nq "2.prems" obtain str' where "\<not> c < 0x20" "lex_string cs = Some (str', rest)"
        by (auto split: option.splits if_splits)
      with "2.IH"(3) [OF nq nb] have "length rest < length cs" by blast
      then show ?thesis by simp
    qed
  qed
qed

lemma lex_frac_length: "lex_frac s = Some (fd, rest) \<Longrightarrow> length rest \<le> length s"
  by (auto simp: lex_frac_def Let_def split: list.splits if_splits)

lemma lex_exp_length: "lex_exp s = Some (ex, rest) \<Longrightarrow> length rest \<le> length s"
  by (auto simp: lex_exp_def Let_def split: list.splits if_splits)

lemma lex_number_length:
  assumes "lex_number s = Some (n, rest)" shows "length rest < length s"
proof -
  define neg where "neg = (s \<noteq> [] \<and> hd s = 0x2D)"
  define s1 where "s1 = (if neg then tl s else s)"
  define ip where "ip = (if s1 \<noteq> [] \<and> hd s1 = 0x30 then [0x30] else takeWhile is_digit s1)"
  from assms have ne: "ip \<noteq> []"
    by (auto simp: lex_number_def Let_def neg_def s1_def ip_def split: if_splits)
  from assms ne obtain fd s3 ex where
    f: "lex_frac (drop (length ip) s1) = Some (fd, s3)" and e: "lex_exp s3 = Some (ex, rest)"
    unfolding lex_number_def Let_def neg_def [symmetric] s1_def [symmetric] ip_def [symmetric]
    by (auto split: option.splits if_splits)
  have "length ip \<le> length s1"
    by (auto simp: ip_def length_takeWhile_le Suc_le_eq)
  moreover have "0 < length ip" using ne by simp
  moreover have "length s1 \<le> length s" by (simp add: s1_def)
  moreover have "length s3 \<le> length s1 - length ip"
    using lex_frac_length [OF f] by simp
  moreover note lex_exp_length [OF e]
  ultimately show ?thesis by linarith
qed

function tokenize :: "jsstring \<Rightarrow> token list option" where
  "tokenize [] = Some []"
| "tokenize (c # cs) =
     (if is_json_space c then tokenize cs
      else if c = 0x7B then map_option (Cons LBRACE) (tokenize cs)
      else if c = 0x7D then map_option (Cons RBRACE) (tokenize cs)
      else if c = 0x5B then map_option (Cons LBRACK) (tokenize cs)
      else if c = 0x5D then map_option (Cons RBRACK) (tokenize cs)
      else if c = 0x3A then map_option (Cons COLON) (tokenize cs)
      else if c = 0x2C then map_option (Cons COMMA) (tokenize cs)
      else if c = 0x22 then
        (case lex_string cs of
           None \<Rightarrow> None
         | Some (str, rest) \<Rightarrow> map_option (Cons (TSTRING str)) (tokenize rest))
      else if c = 0x2D \<or> is_digit c then
        (case lex_number (c # cs) of
           None \<Rightarrow> None
         | Some (n, rest) \<Rightarrow> map_option (Cons (TNUMBER n)) (tokenize rest))
      else if take 4 (c # cs) = lit ''true'' then map_option (Cons TTRUE) (tokenize (drop 3 cs))
      else if take 5 (c # cs) = lit ''false'' then map_option (Cons TFALSE) (tokenize (drop 4 cs))
      else if take 4 (c # cs) = lit ''null'' then map_option (Cons TNULL) (tokenize (drop 3 cs))
      else None)"
  by pat_completeness auto
termination
proof (relation "measure length")
  show "wf (measure length)" by simp
next
  fix c cs x2 x y
  assume "lex_string cs = Some x2" "(x, y) = x2"
  then show "(y, c # cs) \<in> measure length"
    using lex_string_length [of cs x y] by simp
next
  fix c cs x2 x y
  assume "lex_number (c # cs) = Some x2" "(x, y) = x2"
  then show "(y, c # cs) \<in> measure length"
    using lex_number_length [of "c # cs" x y] by simp
qed simp_all

fun next_is :: "token \<Rightarrow> token list \<Rightarrow> bool" where
  "next_is t [] = False"
| "next_is t (u # us) = (t = u)"

function parse_value :: "token list \<Rightarrow> (jsval \<times> token list) option"
  and parse_elements :: "token list \<Rightarrow> (jsval list \<times> token list) option"
  and parse_members :: "token list \<Rightarrow> ((jsstring \<times> jsval) list \<times> token list) option"
where
  "parse_value [] = None"
| "parse_value (t # ts) =
     (case t of
        TSTRING s \<Rightarrow> Some (String s, ts)
      | TNUMBER n \<Rightarrow> Some (Number n, ts)
      | TTRUE \<Rightarrow> Some (Boolean True, ts)
      | TFALSE \<Rightarrow> Some (Boolean False, ts)
      | TNULL \<Rightarrow> Some (Null, ts)
      | LBRACK \<Rightarrow>
          if next_is RBRACK ts then Some (Array [], tl ts)
          else (case parse_elements ts of
                  None \<Rightarrow> None
                | Some (vs, rest) \<Rightarrow> Some (Array vs, rest))
      | LBRACE \<Rightarrow>
          if next_is RBRACE ts then Some (Object [], tl ts)
          else (case parse_members ts of
                  None \<Rightarrow> None
                | Some (kvs, rest) \<Rightarrow> Some (Object (assign_all kvs []), rest))
      | _ \<Rightarrow> None)"
| "parse_elements ts =
     (case parse_value ts of
        None \<Rightarrow> None
      | Some (v, rest) \<Rightarrow>
          if length rest < length ts then
            (if next_is COMMA rest then
               (case parse_elements (tl rest) of
                  None \<Rightarrow> None
                | Some (vs, rest') \<Rightarrow> Some (v # vs, rest'))
             else if next_is RBRACK rest then Some ([v], tl rest)
             else None)
          else None)"
| "parse_members ts =
     (case ts of
        TSTRING k # COLON # ts' \<Rightarrow>
          (case parse_value ts' of
             None \<Rightarrow> None
           | Some (v, rest) \<Rightarrow>
               if length rest < length ts' then
                 (if next_is COMMA rest then
                    (case parse_members (tl rest) of
                       None \<Rightarrow> None
                     | Some (kvs, rest') \<Rightarrow> Some ((k, v) # kvs, rest'))
                  else if next_is RBRACE rest then Some ([(k, v)], tl rest)
                  else None)
               else None)
      | _ \<Rightarrow> None)"
  by pat_completeness auto
termination
  by (relation "measures [\<lambda>x. case x of Inl ts \<Rightarrow> length ts | Inr (Inl ts) \<Rightarrow> length ts | Inr (Inr ts) \<Rightarrow> length ts,
                          \<lambda>x. case x of Inl ts \<Rightarrow> 0 | Inr (Inl ts) \<Rightarrow> 1 | Inr (Inr ts) \<Rightarrow> 1]")
     (auto split: list.splits token.splits)

definition JSON_parse :: "jsstring \<Rightarrow> jsval option" where
  "JSON_parse text =
     (case tokenize text of
        None \<Rightarrow> None
      | Some ts \<Rightarrow>
          (case parse_value ts of
             None \<Rightarrow> None
           | Some (v, rest) \<Rightarrow> if rest = [] then Some v else None))"

text \<open>
  \<open>JSON.stringify\<close> with one argument. \<open>None\<close> is the result \<open>undefined\<close>. A string is
  quoted code point by code point: the quote, the backslash and the control characters are
  escaped, a surrogate without its partner is written as \<open>\\uXXXX\<close>. How a finite number
  is printed (\<open>Number.prototype.toString\<close>) is the parameter \<open>ns\<close>.
\<close>

definition hex_digit :: "16 word \<Rightarrow> 16 word" where
  "hex_digit n = (if n < 10 then n + 0x30 else n - 10 + 0x61)"

definition unicode_escape :: "16 word \<Rightarrow> jsstring" where
  "unicode_escape c =
     [0x5C, 0x75, hex_digit (c div 0x1000), hex_digit (c div 0x100 mod 0x10),
      hex_digit (c div 0x10 mod 0x10), hex_digit (c mod 0x10)]"

definition escape_unit :: "16 word \<Rightarrow> jsstring" where
  "escape_unit c =
     (if c = 0x8 then [0x5C, 0x62]
      else if c = 0x9 then [0x5C, 0x74]
      else if c = 0xA then [0x5C, 0x6E]
      else if c = 0xC then [0x5C, 0x66]
      else if c = 0xD then [0x5C, 0x72]
      else if c = 0x22 then [0x5C, 0x22]
      else if c = 0x5C then [0x5C, 0x5C]
      else if c < 0x20 then unicode_escape c
      else [c])"

definition is_high :: "16 word \<Rightarrow> bool" where
  "is_high c \<longleftrightarrow> 0xD800 \<le> c \<and> c \<le> 0xDBFF"

definition is_low :: "16 word \<Rightarrow> bool" where
  "is_low c \<longleftrightarrow> 0xDC00 \<le> c \<and> c \<le> 0xDFFF"

fun quote_chars :: "jsstring \<Rightarrow> jsstring" where
  "quote_chars [] = []"
| "quote_chars [c] = (if is_high c \<or> is_low c then unicode_escape c else escape_unit c)"
| "quote_chars (c # d # cs) =
     (if is_high c then
        (if is_low d then c # d # quote_chars cs else unicode_escape c @ quote_chars (d # cs))
      else if is_low c then unicode_escape c @ quote_chars (d # cs)
      else escape_unit c @ quote_chars (d # cs))"

definition quote :: "jsstring \<Rightarrow> jsstring" where
  "quote s = 0x22 # quote_chars s @ [0x22]"

fun join_comma :: "jsstring list \<Rightarrow> jsstring" where
  "join_comma [] = []"
| "join_comma [x] = x"
| "join_comma (x # y # r) = x @ 0x2C # join_comma (y # r)"

fun is_finite :: "jsnum \<Rightarrow> bool" where
  "is_finite NaN = False"
| "is_finite PosInf = False"
| "is_finite NegInf = False"
| "is_finite _ = True"

primrec serialize :: "(jsnum \<Rightarrow> jsstring) \<Rightarrow> jsval \<Rightarrow> jsstring option" where
  "serialize ns Undefined = None"
| "serialize ns Null = Some (lit ''null'')"
| "serialize ns (Boolean b) = Some (if b then lit ''true'' else lit ''false'')"
| "serialize ns (Number n) = Some (if is_finite n then ns n else lit ''null'')"
| "serialize ns (String s) = Some (quote s)"
| "serialize ns (Array vs) =
     Some (0x5B # join_comma (map (\<lambda>t. case t of None \<Rightarrow> lit ''null'' | Some x \<Rightarrow> x)
                               (map (serialize ns) vs)) @ [0x5D])"
| "serialize ns (Object kvs) =
     Some (0x7B # join_comma (List.map_filter (\<lambda>kt. map_option (\<lambda>x. quote (fst kt) @ 0x3A # x) (snd kt))
                               (map (map_prod id (serialize ns)) kvs)) @ [0x7D])"

definition JSON_stringify :: "(jsnum \<Rightarrow> jsstring) \<Rightarrow> jsval \<Rightarrow> jsstring option" where
  "JSON_stringify ns v = serialize ns v"

text \<open>
  The values that the store writes: no \<open>undefined\<close> and no number anywhere, and every
  object with each key once. \<open>tokens_of\<close> gives the tokens of the text of such a value.
\<close>

primrec storable :: "jsval \<Rightarrow> bool" where
  "storable Undefined = False"
| "storable Null = True"
| "storable (Boolean b) = True"
| "storable (Number n) = False"
| "storable (String s) = True"
| "storable (Array vs) = list_all (\<lambda>b. b) (map storable vs)"
| "storable (Object kvs) =
     (distinct (map fst kvs) \<and> list_all snd (map (map_prod id storable) kvs))"

fun join_tokens :: "token list list \<Rightarrow> token list" where
  "join_tokens [] = []"
| "join_tokens [x] = x"
| "join_tokens (x # y # r) = x @ COMMA # join_tokens (y # r)"

primrec tokens_of :: "jsval \<Rightarrow> token list" where
  "tokens_of Undefined = []"
| "tokens_of Null = [TNULL]"
| "tokens_of (Boolean b) = [if b then TTRUE else TFALSE]"
| "tokens_of (Number n) = [TNUMBER n]"
| "tokens_of (String s) = [TSTRING s]"
| "tokens_of (Array vs) = LBRACK # join_tokens (map tokens_of vs) @ [RBRACK]"
| "tokens_of (Object kvs) =
     LBRACE # join_tokens (map (\<lambda>kt. TSTRING (fst kt) # COLON # snd kt)
                             (map (map_prod id tokens_of) kvs)) @ [RBRACE]"

definition lexes_back :: "(jsnum \<Rightarrow> jsstring) \<Rightarrow> jsval \<Rightarrow> bool" where
  "lexes_back ns v \<longleftrightarrow>
     (\<exists>text. serialize ns v = Some text
        \<and> (\<forall>s. tokenize (text @ s) = map_option ((@) (tokens_of v)) (tokenize s)))"

definition parses_back :: "jsval \<Rightarrow> bool" where
  "parses_back v \<longleftrightarrow> (\<forall>ts. parse_value (tokens_of v @ ts) = Some (v, ts))"

section \<open>script.js: persistence\<close>

text \<open>
  \<open>getProjects\<close> and \<open>saveProjects\<close> on the item \<open>ai_projects\<close> of localStorage:
  \<open>None\<close> when the key is absent (\<open>getItem\<close> gives null), else the stored text. The
  records of the store are written as the objects that the source builds, with the
  properties in the order of the object literals.
\<close>

definition getProjects :: "jsstring option \<Rightarrow> jsval" where
  "getProjects raw =
     (case raw of
        None \<Rightarrow> Array []
      | Some text \<Rightarrow>
          if text = [] then Array []
          else (case JSON_parse text of None \<Rightarrow> Array [] | Some v \<Rightarrow> v))"

definition saveProjects :: "(jsnum \<Rightarrow> jsstring) \<Rightarrow> jsval \<Rightarrow> jsstring option \<Rightarrow> jsstring option" where
  "saveProjects ns projects item =
     Some (case JSON_stringify ns projects of None \<Rightarrow> lit ''undefined'' | Some out \<Rightarrow> out)"

text \<open>
  \<open>projects.find((p) => p.id === id)\<close> on what \<open>getProjects\<close> returned: on an array the
  first element with the id, or undefined; the read \<open>p.id\<close> throws on an element that is
  null. On null the read of \<open>find\<close> throws, and on any other value \<open>find\<close> is no
  function, a TypeError as well.
\<close>

fun find_by_id :: "jsval list \<Rightarrow> jsstring \<Rightarrow> error + jsval" where
  "find_by_id [] ident = Inr Undefined"
| "find_by_id (p # ps) ident =
     (case get_prop p (lit ''id'') of
        Inl e \<Rightarrow> Inl e
      | Inr v \<Rightarrow> if v = String ident then Inr p else find_by_id ps ident)"

definition projects_find :: "jsval \<Rightarrow> jsstring \<Rightarrow> error + jsval" where
  "projects_find projects ident =
     (case projects of Array ps \<Rightarrow> find_by_id ps ident | _ \<Rightarrow> Inl TypeError)"

fun status_str :: "status \<Rightarrow> jsstring" where
  "status_str DRAFT = lit ''DRAFT''"
| "status_str AI_REVIEWING = lit ''AI_REVIEWING''"
| "status_str AI_COMPLETED = lit ''AI_COMPLETED''"
| "status_str DEPT_REVIEWING = lit ''DEPT_REVIEWING''"
| "status_str APPROVED = lit ''APPROVED''"

fun risk_str :: "risk_level \<Rightarrow> jsstring" where
  "risk_str Gao = [0x9AD8]"
| "risk_str Zhong = [0x4E2D]"
| "risk_str Di = [0x4F4E]"

definition risk_item_to_js :: "risk_item \<Rightarrow> jsval" where
  "risk_item_to_js it =
     Object [(lit ''id'', String (id_item it)),
             (lit ''category'', String (category it)),
             (lit ''suspectedText'', String (suspectedText it)),
             (lit ''analysis'', String (analysis it)),
             (lit ''riskLevel'', String (risk_str (riskLevel it))),
             (lit ''suggestedAdjustment'', String (suggestedAdjustment it)),
             (lit ''lawReference'', String (lawReference it))]"

definition disposition_to_js :: "disposition \<Rightarrow> jsval" where
  "disposition_to_js d = Object [(lit ''type'', String (type_d d)), (lit ''desc'', String (desc d))]"

definition ai_review_to_js :: "ai_review \<Rightarrow> jsval" where
  "ai_review_to_js r =
     Object [(lit ''overallRisk'', String (risk_str (overallRisk r))),
             (lit ''riskItems'', Array (map risk_item_to_js (riskItems r))),
             (lit ''actions'', Object (map (\<lambda>kd. (fst kd, disposition_to_js (snd kd))) (actions r)))]"

definition project_to_js :: "project \<Rightarrow> jsval" where
  "project_to_js p =
     Object [(lit ''id'', String (id_project p)),
             (lit ''projectName'', String (projectName p)),
             (lit ''policyTitle'', String (policyTitle p)),
             (lit ''org'', String (org p)),
             (lit ''draftType'', String (draftType p)),
             (lit ''scope'', String (scope p)),
             (lit ''releaseDate'', String (releaseDate p)),
             (lit ''isSecret'', Boolean (isSecret p)),
             (lit ''applyException'', Boolean (applyException p)),
             (lit ''createdAt'', String (createdAt p)),
             (lit ''updatedAt'', String (updatedAt p)),
             (lit ''status'', String (status_str (status p))),
             (lit ''aiReview'', (case aiReview p of None \<Rightarrow> Null | Some r \<Rightarrow> ai_review_to_js r))]"

definition projects_to_js :: "project list \<Rightarrow> jsval" where
  "projects_to_js ps = Array (map project_to_js ps)"

text \<open>
  In the records, \<open>actions\<close> stands for an object, so each key is there once; \<open>all_wf\<close>
  says so of the collection and of the arrays held by pending callbacks.
\<close>

definition actions_wf :: "project \<Rightarrow> bool" where
  "actions_wf p = (case aiReview p of None \<Rightarrow> True | Some r \<Rightarrow> distinct (map fst (actions r)))"

definition all_wf :: "app_state \<Rightarrow> bool" where
  "all_wf st \<longleftrightarrow>
     list_all actions_wf (storage st) \<and> list_all (\<lambda>t. list_all actions_wf (fst t)) (timers st)"

section \<open>server.js: the handler of POST /api/review\<close>

text \<open>
  ToString, as a template literal applies it to a value of a JSON body. An object takes
  \<open>toString\<close> from \<open>Object.prototype\<close> unless it has a property of that name itself, which
  is then not callable, as \<open>valueOf\<close> of the prototype gives no primitive: a TypeError. An
  array joins the strings of its elements with commas, \<open>null\<close> and \<open>undefined\<close> as the
  empty string. A number is printed by \<open>ns\<close>.
\<close>

fun collect :: "(error + 'a) list \<Rightarrow> error + 'a list" where
  "collect [] = Inr []"
| "collect (r # rs) =
     (case r of
        Inl e \<Rightarrow> Inl e
      | Inr x \<Rightarrow> (case collect rs of Inl e \<Rightarrow> Inl e | Inr xs \<Rightarrow> Inr (x # xs)))"

primrec to_string :: "(jsnum \<Rightarrow> jsstring) \<Rightarrow> jsval \<Rightarrow> error + jsstring" where
  "to_string ns Undefined = Inr (lit ''undefined'')"
| "to_string ns Null = Inr (lit ''null'')"
| "to_string ns (Boolean b) = Inr (if b then lit ''true'' else lit ''false'')"
| "to_string ns (Number n) = Inr (ns n)"
| "to_string ns (String s) = Inr s"
| "to_string ns (Array vs) =
     (case collect (map (\<lambda>vr. if fst vr = Null \<or> fst vr = Undefined then Inr [] else snd vr)
                       (zip vs (map (to_string ns) vs))) of
        Inl e \<Rightarrow> Inl e
      | Inr strs \<Rightarrow> Inr (join_comma strs))"
| "to_string ns (Object kvs) =
     (if lit ''toString'' \<in> fst ` set kvs then Inl TypeError else Inr (lit ''[object Object]''))"

record http_response =
  code :: nat
  body :: jsval

record prompt_params =
  businessType :: jsval
  jurisdiction :: jsval
  content :: jsval
  options :: jsval

text \<open>The constant parts of the template of \<open>buildPrompt\<close>, in order.\<close>

definition prompt_head :: jsstring where
  "prompt_head =
     [0xA, 0x4F60, 0x662F, 0x4E00, 0x540D, 0x719F, 0x6089, 0x53CD, 0x5784, 0x65AD, 0x6CD5,
      0x548C, 0x53CD, 0x4E0D, 0x6B63, 0x5F53, 0x7ADE, 0x4E89, 0x6CD5, 0x7684, 0x5408, 0x89C4,
      0x987E, 0x95EE, 0xFF0C, 0x9700, 0x8981, 0x5BF9, 0x4EE5, 0x4E0B, 0x5546, 0x4E1A, 0x5B89,
      0x6392, 0x8FDB, 0x884C, 0x516C, 0x5E73, 0x7ADE, 0x4E89, 0x5408, 0x89C4, 0x5BA1, 0x67E5,
      0x3002, 0x8BF7, 0x7528, 0x4E2D, 0x6587, 0x56DE, 0x7B54, 0x3002, 0xA, 0xA, 0x3010, 0x4E1A,
      0x52A1, 0x573A, 0x666F, 0x7C7B, 0x578B, 0x3011]"

definition prompt_before_jurisdiction :: jsstring where
  "prompt_before_jurisdiction =
     [0xA, 0x3010, 0x4E3B, 0x8981, 0x9002, 0x7528, 0x6CD5, 0x57DF, 0x3011]"

definition prompt_before_content :: jsstring where
  "prompt_before_content =
     [0xA, 0x3010, 0x6587, 0x672C, 0x5185, 0x5BB9, 0x3011, 0xA]"

definition prompt_tail :: jsstring where
  "prompt_tail =
     [0xA, 0xA, 0x8BF7, 0x7ED9, 0x51FA, 0x7ED3, 0x6784, 0x5316, 0x8F93, 0x51FA, 0xFF08, 0x4A,
      0x53, 0x4F, 0x4E, 0xFF09, 0xFF0C, 0x5B57, 0x6BB5, 0x5305, 0x62EC, 0xFF1A, 0xA, 0x72, 0x69,
      0x73, 0x6B, 0x53, 0x63, 0x6F, 0x72, 0x65, 0xFF1A, 0x30, 0x2D, 0x31, 0x30, 0x30, 0x20,
      0x7684, 0x6574, 0x6570, 0xFF0C, 0x5206, 0x6570, 0x8D8A, 0x9AD8, 0x8868, 0x793A, 0x7ADE,
      0x4E89, 0x6CD5, 0x98CE, 0x9669, 0x8D8A, 0x5927, 0xFF1B, 0xA, 0x73, 0x75, 0x6D, 0x6D, 0x61,
      0x72, 0x79, 0xFF1A, 0x5BF9, 0x6574, 0x4F53, 0x98CE, 0x9669, 0x7684, 0x7B80, 0x77ED, 0x603B,
      0x7ED3, 0xFF08, 0x32, 0x2D, 0x34, 0x20, 0x53E5, 0x8BDD, 0xFF09, 0xFF1B, 0xA, 0x69, 0x73,
      0x73, 0x75, 0x65, 0x73, 0xFF1A, 0x6570, 0x7EC4, 0xFF0C, 0x6BCF, 0x4E2A, 0x5143, 0x7D20,
      0x5305, 0x542B, 0x20, 0x74, 0x69, 0x74, 0x6C, 0x65, 0xFF08, 0x98CE, 0x9669, 0x70B9, 0x6807,
      0x9898, 0xFF09, 0x3001, 0x6C, 0x65, 0x76, 0x65, 0x6C, 0xFF08, 0x4F4E, 0x2F, 0x4E2D, 0x2F,
      0x9AD8, 0xFF09, 0x3001, 0x64, 0x65, 0x73, 0x63, 0x72, 0x69, 0x70, 0x74, 0x69, 0x6F, 0x6E,
      0xFF08, 0x98CE, 0x9669, 0x70B9, 0x8BF4, 0x660E, 0xFF09, 0x3001, 0x73, 0x75, 0x67, 0x67,
      0x65, 0x73, 0x74, 0x69, 0x6F, 0x6E, 0xFF08, 0x6574, 0x6539, 0x5EFA, 0x8BAE, 0xFF09, 0x3001,
      0x6C, 0x61, 0x77, 0x52, 0x65, 0x66, 0x65, 0x72, 0x65, 0x6E, 0x63, 0x65, 0xFF08, 0x53EF,
      0x80FD, 0x6D89, 0x53CA, 0x7684, 0x6CD5, 0x5F8B, 0x6761, 0x6B3E, 0x6216, 0x76D1, 0x7BA1,
      0x6307, 0x5F15, 0xFF09, 0xFF1B, 0xA, 0x6D, 0x6F, 0x64, 0x65, 0x6C, 0x4E, 0x6F, 0x74, 0x65,
      0xFF1A, 0x5BF9, 0x6A21, 0x578B, 0x5206, 0x6790, 0x5C40, 0x9650, 0x6027, 0x7684, 0x7B80,
      0x77ED, 0x8BF4, 0x660E, 0x3002, 0xA, 0xA, 0x53EA, 0x8F93, 0x51FA, 0x20, 0x4A, 0x53, 0x4F,
      0x4E, 0xFF0C, 0x4E0D, 0x8981, 0x8F93, 0x51FA, 0x5176, 0x4ED6, 0x89E3, 0x91CA, 0x6587,
      0x5B57, 0x3002]"

definition buildPrompt :: "(jsnum \<Rightarrow> jsstring) \<Rightarrow> prompt_params \<Rightarrow> error + jsstring" where
  "buildPrompt ns params =
     bind_result (to_string ns (businessType params)) (\<lambda>bt.
     bind_result (to_string ns (jurisdiction params)) (\<lambda>ju.
     bind_result (to_string ns (content params)) (\<lambda>ct.
       Inr (prompt_head @ bt @ prompt_before_jurisdiction @ ju @ prompt_before_content @ ct
            @ prompt_tail))))"

definition msg_content_empty :: jsstring where
  "msg_content_empty = lit ''content '' @ [0x4E0D, 0x80FD, 0x4E3A, 0x7A7A]"

definition msg_parse_failed :: jsstring where
  "msg_parse_failed = [0x89E3, 0x6790, 0x5927, 0x6A21, 0x578B, 0x7ED3, 0x679C, 0x5931, 0x8D25]"

definition msg_internal :: jsstring where
  "msg_internal = [0x670D, 0x52A1, 0x5668, 0x5185, 0x90E8, 0x9519, 0x8BEF]"

definition error_response :: "nat \<Rightarrow> jsstring \<Rightarrow> http_response" where
  "error_response c msg = \<lparr> code = c, body = Object [(lit ''error'', String msg)] \<rparr>"

definition response_to_js :: "review_response \<Rightarrow> jsval" where
  "response_to_js r =
     Object [(lit ''riskScore'', riskScore r), (lit ''summary'', summary r),
             (lit ''issues'', issues r), (lit ''modelNote'', modelNote r)]"

fun text_of :: "jsval \<Rightarrow> jsstring" where
  "text_of (String s) = s"
| "text_of _ = []"

text \<open>The argument that the handler gives to \<open>buildPrompt\<close>, from the body of the request.\<close>

definition request_params :: "jsval \<Rightarrow> prompt_params" where
  "request_params req_body =
     (let b = js_or req_body (Object [])
      in \<lparr> businessType = js_or (own_prop b (lit ''businessType'')) (String (lit ''general'')),
           jurisdiction = js_or (own_prop b (lit ''jurisdiction'')) (String (lit ''cn'')),
           content = own_prop b (lit ''content''),
           options = js_or (own_prop b (lit ''options'')) (Object []) \<rparr>)"

text \<open>
  The handler, with the backend as a parameter: \<open>callLLM\<close> gets the prompt and returns what
  its promise resolves to, or the error it rejects with. The result is the response sent
  and the prompts of the backend calls made, in order. \<open>review_try\<close> is the body of the
  \<open>try\<close> block, \<open>review_handler\<close> adds the \<open>catch\<close>.
\<close>

definition review_try ::
    "(jsnum \<Rightarrow> jsstring) \<Rightarrow> (jsstring \<Rightarrow> error + jsval) \<Rightarrow> jsval
      \<Rightarrow> (error + http_response) \<times> jsstring list" where
  "review_try ns callLLM req_body =
     (let b = js_or req_body (Object []);
          fields = bind_result (get_prop b (lit ''businessType'')) (\<lambda>bt.
                   bind_result (get_prop b (lit ''jurisdiction'')) (\<lambda>ju.
                   bind_result (get_prop b (lit ''content'')) (\<lambda>ct.
                   bind_result (get_prop b (lit ''options'')) (\<lambda>op. Inr (bt, ju, ct, op)))))
      in case fields of
           Inl e \<Rightarrow> (Inl e, [])
         | Inr (bt, ju, ct, op) \<Rightarrow>
             if \<not> truthy ct \<or> \<not> is_string ct
             then (Inr (error_response 400 msg_content_empty), [])
             else
               (case buildPrompt ns
                       \<lparr> businessType = js_or bt (String (lit ''general'')),
                         jurisdiction = js_or ju (String (lit ''cn'')),
                         content = ct,
                         options = js_or op (Object []) \<rparr> of
                  Inl e \<Rightarrow> (Inl e, [])
                | Inr prompt \<Rightarrow>
                    (case callLLM prompt of
                       Inl e \<Rightarrow> (Inl e, [prompt])
                     | Inr raw \<Rightarrow>
                         if is_string raw then
                           (case JSON_parse (text_of raw) of
                              None \<Rightarrow> (Inr (error_response 500 msg_parse_failed), [prompt])
                            | Some parsed \<Rightarrow>
                                (case normalize_payload parsed of
                                   Inl e \<Rightarrow> (Inl e, [prompt])
                                 | Inr r \<Rightarrow> (Inr \<lparr> code = 200, body = response_to_js r \<rparr>, [prompt])))
                         else
                           (case normalize_payload raw of
                              Inl e \<Rightarrow> (Inl e, [prompt])
                            | Inr r \<Rightarrow> (Inr \<lparr> code = 200, body = response_to_js r \<rparr>, [prompt])))))"

definition review_handler ::
    "(jsnum \<Rightarrow> jsstring) \<Rightarrow> (jsstring \<Rightarrow> error + jsval) \<Rightarrow> jsval \<Rightarrow> http_response \<times> jsstring list" where
  "review_handler ns callLLM req_body =
     (case review_try ns callLLM req_body of
        (Inl e, calls) \<Rightarrow> (error_response 500 msg_internal, calls)
      | (Inr r, calls) \<Rightarrow> (r, calls))"

definition nonempty_text :: "jsval \<Rightarrow> bool" where
  "nonempty_text v = (case v of String s \<Rightarrow> s \<noteq> [] | _ \<Rightarrow> False)"

text \<open>
  The lifecycle invariant, for one project and for a state: the collection and the arrays
  held by pending callbacks.
\<close>

definition lifecycle_ok :: "project \<Rightarrow> bool" where
  "lifecycle_ok p \<longleftrightarrow>
     (aiReview p \<noteq> None \<longleftrightarrow> status p \<in> {AI_COMPLETED, DEPT_REVIEWING, APPROVED})"

definition all_ok :: "app_state \<Rightarrow> bool" where
  "all_ok st \<longleftrightarrow>
     (\<forall>p\<in>set (storage st). lifecycle_ok p)
   \<and> (\<forall>t\<in>set (timers st). \<forall>p\<in>set (fst t). lifecycle_ok p)"

section \<open>Sample inputs\<close>

text \<open>Draws that give three items, the first with category index 3, the others with index 1.\<close>

definition demo_draws :: draws where
  "demo_draws =
     \<lparr> count_draw = 1/2,
       item_draw = (\<lambda>i. (if i = 0 then 7/8 else 1/4,
                          \<lparr> random_part = lit ''k3f9a'',
                            time_part = lit (if i = 0 then ''lz0qx1'' else if i = 1 then ''lz0qx2'' else ''lz0qx3'') \<rparr>)) \<rparr>"

text \<open>
  Draws at which the rounding of the product shows: the first is the double below 2/3, its
  product with 3 rounds to 2, so there are four items.
\<close>

definition edge_draws :: draws where
  "edge_draws =
     \<lparr> count_draw = 6004799503160661 / 2 ^ 53,
       item_draw = (\<lambda>i. (6004799503160661 / 2 ^ 54,
                          \<lparr> random_part = lit ''k3f9a'',
                            time_part = lit (if i = 0 then ''lz0qx1'' else if i = 1 then ''lz0qx2''
                                             else if i = 2 then ''lz0qx3'' else ''lz0qx4'') \<rparr>)) \<rparr>"

text \<open>A project is created, its review is started, and the review completes.\<close>

definition demo_form :: create_form where
  "demo_form =
     \<lparr> projectName_f = lit '' Subsidy rules '', policyTitle_f = lit ''Notice 12'',
       org_f = lit ''Bureau'', draftType_f = lit ''policy'', scope_f = lit ''city'',
       releaseDate_f = lit ''2024-06-01'', isSecret_f = False, applyException_f = False \<rparr>"

definition demo_src :: id_source where
  "demo_src = \<lparr> random_part = lit ''a1b2c'', time_part = lit ''lx3k9z2p'' \<rparr>"

definition demo_pid :: jsstring where
  "demo_pid = generateId (lit ''P'') demo_src"

definition demo_created :: app_state where
  "demo_created = handleCreateProject demo_form demo_src (lit ''2024-05-01 10:00'') initial_state"

definition demo_project :: project where
  "demo_project =
     \<lparr> id_project = demo_pid, projectName = lit ''Subsidy rules'', policyTitle = lit ''Notice 12'',
       org = lit ''Bureau'', draftType = lit ''policy'', scope = lit ''city'',
       releaseDate = lit ''2024-06-01'', isSecret = False, applyException = False,
       createdAt = lit ''2024-05-01 10:00'', updatedAt = lit ''2024-05-01 10:00'',
       status = DRAFT, aiReview = None \<rparr>"

definition demo_started :: app_state where
  "demo_started = startAIReview demo_pid (lit ''2024-05-01 10:01'') demo_created"

definition demo_reviewed :: app_state where
  "demo_reviewed = run_timer 0 demo_draws (lit ''2024-05-01 10:02'') demo_started"

text \<open>The form of the detail page: the first finding adopted with a comment, the second
  left unset, the third rejected.\<close>

definition demo_actions :: action_form where
  "demo_actions =
     \<lparr> selects = [(lit ''Rk3f9alz0qx1'', lit ''adopt''), (lit ''Rk3f9alz0qx2'', []),
                  (lit ''Rk3f9alz0qx3'', lit ''reject'')],
       textareas = [(lit ''Rk3f9alz0qx1'', lit '' agreed ''), (lit ''Rk3f9alz0qx2'', lit ''later''),
                    (lit ''Rk3f9alz0qx3'', [])] \<rparr>"

definition demo_saved :: app_state where
  "demo_saved = saveRiskActions demo_pid demo_actions (lit ''2024-05-01 10:04'') demo_reviewed"

text \<open>A printer of numbers for the sample runs (the samples hold no number).\<close>

definition demo_ns :: "jsnum \<Rightarrow> jsstring" where
  "demo_ns n = lit ''0''"

text \<open>A backend that answers with an empty object.\<close>

definition demo_backend :: "jsstring \<Rightarrow> error + jsval" where
  "demo_backend prompt = Inr (Object [])"

text \<open>A backend that answers with the text \<open>null\<close>.\<close>

definition null_backend :: "jsstring \<Rightarrow> error + jsval" where
  "null_backend prompt = Inr (String (lit ''null''))"

text \<open>Two bodies of a request: one as the page sends it, one with a business type that
  has no string.\<close>

definition demo_body :: jsval where
  "demo_body = Object [(lit ''businessType'', String (lit ''platform'')),
                       (lit ''content'', String (lit ''no sales outside''))]"

definition odd_body :: jsval where
  "odd_body = Object [(lit ''content'', String (lit ''x'')),
                      (lit ''businessType'', Object [(lit ''toString'', Number (Fin 1))])]"

section \<open>Properties of the response normalisation\<close>

lemma get_prop_defined:
  "parsed \<noteq> Undefined \<Longrightarrow> parsed \<noteq> Null \<Longrightarrow> get_prop parsed k = Inr (own_prop parsed k)"
  by (cases parsed) (simp_all add: own_prop_def)

text \<open>
  On every payload other than \<open>null\<close> and \<open>undefined\<close> (an object, an array or a
  primitive) the normalisation does not throw and gives the four fields: \<open>riskScore\<close> is
  the payload's when that is a number and null otherwise, \<open>summary\<close> and \<open>modelNote\<close> are
  the payload's when truthy and the empty string otherwise (so also when missing),
  \<open>issues\<close> is the payload's when it is an array and the empty array otherwise.
\<close>

lemma normalize_payload_defined:
  assumes "parsed \<noteq> Undefined" and "parsed \<noteq> Null"
  shows "normalize_payload parsed = Inr
           \<lparr> riskScore = (if is_number (own_prop parsed (lit ''riskScore''))
                          then own_prop parsed (lit ''riskScore'') else Null),
             summary = (if truthy (own_prop parsed (lit ''summary''))
                        then own_prop parsed (lit ''summary'') else String []),
             issues = (if is_array (own_prop parsed (lit ''issues''))
                       then own_prop parsed (lit ''issues'') else Array []),
             modelNote = (if truthy (own_prop parsed (lit ''modelNote''))
                          then own_prop parsed (lit ''modelNote'') else String []) \<rparr>"
  using assms by (simp add: normalize_payload_def bind_result_def get_prop_defined js_or_def)

text \<open>The payload of the specification's example: no \<open>riskScore\<close>, \<open>issues\<close> a string.\<close>

lemma normalize_payload_example:
  "normalize_payload (Object [(lit ''issues'', String (lit ''none''))]) =
       Inr \<lparr> riskScore = Null, summary = String [], issues = Array [], modelNote = String [] \<rparr>"
  using normalize_payload_defined [of "Object [(lit ''issues'', String (lit ''none''))]"]
  by (simp add: own_prop_def lit_def)

text \<open>
  C1 does not hold of the code: on the payload \<open>null\<close>, which \<open>JSON.parse\<close> gives for the
  text \<open>null\<close>, and on \<open>undefined\<close> the first property read throws a TypeError, and the
  handler answers a valid request with the 500 response instead of the four fields.
\<close>

theorem normalize_payload_null_throws:
  "normalize_payload Null = Inl TypeError
   \<and> normalize_payload Undefined = Inl TypeError
   \<and> JSON_parse (lit ''null'') = Some Null
   \<and> fst (review_handler demo_ns null_backend demo_body) = error_response 500 msg_internal"
proof -
  have "normalize_payload Null = Inl TypeError"
    by (simp add: normalize_payload_def bind_result_def)
  moreover have "normalize_payload Undefined = Inl TypeError"
    by (simp add: normalize_payload_def bind_result_def)
  moreover have "JSON_parse (lit ''null'') = Some Null"
    by code_simp
  moreover have "fst (review_handler demo_ns null_backend demo_body) = error_response 500 msg_internal"
    by code_simp
  ultimately show ?thesis by simp
qed

section \<open>Properties of the generator\<close>

lemma foldl_highest_ge:
  "order h \<le> order (foldl (\<lambda>highest item. if order (riskLevel item) > order highest then riskLevel item else highest) h items)"
  by (induction items arbitrary: h) (auto intro: order_trans less_imp_le)

lemma foldl_highest_upper:
  "it \<in> set items \<Longrightarrow>
   order (riskLevel it) \<le> order (foldl (\<lambda>highest item. if order (riskLevel item) > order highest then riskLevel item else highest) h items)"
proof (induction items arbitrary: h)
  case Nil
  then show ?case by simp
next
  case (Cons x xs)
  show ?case
  proof (cases "it = x")
    case True
    have "order (riskLevel x) \<le> order (if order (riskLevel x) > order h then riskLevel x else h)"
      by simp
    also have "\<dots> \<le> order (foldl (\<lambda>highest item. if order (riskLevel item) > order highest then riskLevel item else highest)
          (if order (riskLevel x) > order h then riskLevel x else h) xs)"
      by (rule foldl_highest_ge)
    finally show ?thesis using True by simp
  next
    case False
    with Cons.prems have "it \<in> set xs" by simp
    then show ?thesis using Cons.IH by simp
  qed
qed

lemma foldl_highest_attained:
  "foldl (\<lambda>highest item. if order (riskLevel item) > order highest then riskLevel item else highest) h items = h
   \<or> (\<exists>it\<in>set items. riskLevel it = foldl (\<lambda>highest item. if order (riskLevel item) > order highest then riskLevel item else highest) h items)"
proof (induction items arbitrary: h)
  case Nil
  then show ?case by simp
next
  case (Cons x xs)
  show ?case using Cons.IH [of "if order (riskLevel x) > order h then riskLevel x else h"]
    by (auto split: if_splits)
qed

lemma order_Di_least: "order Di \<le> order l"
  by (cases l) simp_all

lemma order_inj: "order a = order b \<Longrightarrow> a = b"
  by (cases a; cases b) simp_all

lemma highest_of_attained:
  assumes "items \<noteq> []"
  shows "\<exists>it\<in>set items. riskLevel it = highest_of items"
proof -
  from foldl_highest_attained [of Di items]
  consider "highest_of items = Di" | "\<exists>it\<in>set items. riskLevel it = highest_of items"
    by (auto simp: highest_of_def)
  then show ?thesis
  proof cases
    case 1
    from assms obtain x where x: "x \<in> set items" by (cases items) auto
    then have "order (riskLevel x) \<le> order Di"
      using foldl_highest_upper [of x items Di] 1 by (simp add: highest_of_def)
    with order_Di_least [of "riskLevel x"] have "riskLevel x = Di"
      by (intro order_inj) simp
    with x 1 show ?thesis by auto
  next
    case 2
    then show ?thesis .
  qed
qed

text \<open>
  C3: the \<open>overallRisk\<close> of a generated review is \<open>highest_of\<close> its items; on no items
  that is the lowest level, and on any list of items it is an upper bound of their levels
  in the order 3 > 2 > 1 of the source and, when there is an item, the level of one of them.
\<close>

theorem overallRisk_is_maximum:
  "overallRisk (createDummyAIResults d) = highest_of (riskItems (createDummyAIResults d))
   \<and> highest_of [] = Di
   \<and> (\<forall>it\<in>set items. order (riskLevel it) \<le> order (highest_of items))
   \<and> (items \<noteq> [] \<longrightarrow> (\<exists>it\<in>set items. riskLevel it = highest_of items))"
proof -
  have "overallRisk (createDummyAIResults d) = highest_of (riskItems (createDummyAIResults d))"
    by (simp add: createDummyAIResults_def Let_def)
  moreover have "highest_of [] = Di" by (simp add: highest_of_def)
  moreover have "\<forall>it\<in>set items. order (riskLevel it) \<le> order (highest_of items)"
    by (simp add: highest_of_def foldl_highest_upper)
  moreover have "items \<noteq> [] \<longrightarrow> (\<exists>it\<in>set items. riskLevel it = highest_of items)"
    using highest_of_attained by blast
  ultimately show ?thesis by blast
qed

theorem overallRisk_is_maximum_witness:
  "riskItems (createDummyAIResults demo_draws) \<noteq> []
   \<and> riskItems (createDummyAIResults demo_draws) ! 2 \<in> set (riskItems (createDummyAIResults demo_draws))
   \<and> overallRisk (createDummyAIResults demo_draws) = Gao
   \<and> order (riskLevel (riskItems (createDummyAIResults demo_draws) ! 2))
         \<le> order (overallRisk (createDummyAIResults demo_draws))
   \<and> (\<exists>it\<in>set (riskItems (createDummyAIResults demo_draws)).
         riskLevel it = overallRisk (createDummyAIResults demo_draws))"
proof -
  have ne: "riskItems (createDummyAIResults demo_draws) \<noteq> []"
    by code_simp
  have g: "overallRisk (createDummyAIResults demo_draws) = Gao"
    by code_simp
  have "length (riskItems (createDummyAIResults demo_draws)) = 3"
    by code_simp
  then have mem: "riskItems (createDummyAIResults demo_draws) ! 2
                  \<in> set (riskItems (createDummyAIResults demo_draws))"
    by simp
  note m = overallRisk_is_maximum [of demo_draws "riskItems (createDummyAIResults demo_draws)"]
  from m have e: "highest_of (riskItems (createDummyAIResults demo_draws))
                  = overallRisk (createDummyAIResults demo_draws)"
    by simp
  from m mem have "order (riskLevel (riskItems (createDummyAIResults demo_draws) ! 2))
         \<le> order (highest_of (riskItems (createDummyAIResults demo_draws)))"
    by blast
  moreover from m ne have "\<exists>it\<in>set (riskItems (createDummyAIResults demo_draws)).
         riskLevel it = highest_of (riskItems (createDummyAIResults demo_draws))"
    by blast
  ultimately show ?thesis
    unfolding e using ne g mem by blast
qed

lemma round_half_even_le: "q \<le> of_int N \<Longrightarrow> round_half_even q \<le> N"
proof -
  assume q: "q \<le> of_int N"
  then have f: "\<lfloor>q\<rfloor> \<le> N" by (simp add: floor_le_iff)
  show ?thesis
  proof (cases "\<lfloor>q\<rfloor> = N")
    case True
    then have "of_int N \<le> q" by (metis of_int_floor_le)
    with q have "q = of_int N" by simp
    then show ?thesis by (simp add: round_half_even_def)
  next
    case False
    with f have "\<lfloor>q\<rfloor> + 1 \<le> N" by simp
    then show ?thesis by (auto simp: round_half_even_def Let_def)
  qed
qed

lemma round_half_even_below: "q < of_int N - 1/2 \<Longrightarrow> round_half_even q \<le> N - 1"
proof -
  assume q: "q < of_int N - 1/2"
  then have "q < of_int N" by simp
  then have f: "\<lfloor>q\<rfloor> \<le> N - 1" by (simp add: floor_less_iff)
  show ?thesis
  proof (cases "\<lfloor>q\<rfloor> = N - 1")
    case True
    with q have "q - of_int \<lfloor>q\<rfloor> < 1/2" by simp
    with True show ?thesis by (simp add: round_half_even_def Let_def)
  next
    case False
    with f have "\<lfloor>q\<rfloor> + 1 \<le> N - 1" by simp
    then show ?thesis by (auto simp: round_half_even_def Let_def)
  qed
qed

lemma round_half_even_int: "round_half_even (of_int k) = k"
  by (simp add: round_half_even_def)

lemma binade_down_bounds:
  "0 < hi \<Longrightarrow> x < hi \<Longrightarrow> x < binade_down j hi x \<and> binade_down j hi x \<le> hi \<and> 0 < binade_down j hi x"
proof (induction j arbitrary: hi)
  case 0
  then show ?case by simp
next
  case (Suc j)
  show ?case
  proof (cases "hi \<le> 2 * x")
    case True
    with Suc.prems show ?thesis by simp
  next
    case False
    then have a: "x < hi / 2" by simp
    from Suc.prems have b: "0 < hi / 2" by simp
    from Suc.IH [OF b a]
    have "x < binade_down j (hi / 2) x \<and> binade_down j (hi / 2) x \<le> hi / 2
        \<and> 0 < binade_down j (hi / 2) x" .
    with False Suc.prems show ?thesis by simp
  qed
qed

lemma round_mag_le_top:
  assumes "0 \<le> x" and "x < binade_top x" and "0 < binade_top x"
  shows "round_mag x \<le> binade_top x"
proof (cases "x = 0")
  case True
  with assms show ?thesis by (simp add: round_mag_def)
next
  case False
  have u: "0 < ulp x" using assms(3) by (simp add: ulp_def)
  have "x / ulp x \<le> of_int (2 ^ 53)"
    using assms(2,3) by (simp add: ulp_def field_simps)
  then have "round_half_even (x / ulp x) \<le> 2 ^ 53" by (rule round_half_even_le)
  then have "(of_int (round_half_even (x / ulp x)) :: rat) \<le> 2 ^ 53"
    by (metis of_int_le_iff of_int_numeral of_int_power)
  then have "of_int (round_half_even (x / ulp x)) * ulp x \<le> 2 ^ 53 * ulp x"
    using u by (simp add: mult_right_mono)
  with False show ?thesis by (simp add: round_mag_def ulp_def)
qed

lemma round_double_lt_1: 
  assumes "0 \<le> x" and "x < 1" shows "round_double x \<le> 1"
proof -
  from binade_down_bounds [of 1 x 1021] assms
  have b: "x < binade_top x" "binade_top x \<le> 1" "0 < binade_top x"
    by (simp_all add: binade_top_def)
  from round_mag_le_top [OF assms(1) b(1) b(3)] b(2) assms show ?thesis
    by (simp add: round_double_def)
qed

lemma binade_top_1_2: "1 \<le> x \<Longrightarrow> x < 2 \<Longrightarrow> binade_top x = 2"
  by (simp add: binade_top_def eval_nat_numeral)

lemma binade_top_2_4: "2 \<le> x \<Longrightarrow> x < 4 \<Longrightarrow> binade_top x = 4"
  by (simp add: binade_top_def eval_nat_numeral)

lemma binade_top_half_1: "1/2 \<le> x \<Longrightarrow> x < 1 \<Longrightarrow> binade_top x = 1"
  by (simp add: binade_top_def eval_nat_numeral)

lemma round_double_lt_2:
  assumes "0 \<le> x" and "x < 2" shows "round_double x \<le> 2"
proof (cases "x < 1")
  case True
  with round_double_lt_1 [OF assms(1)] show ?thesis by simp
next
  case False
  then have t: "binade_top x = 2" using assms by (intro binade_top_1_2) simp_all
  from round_mag_le_top [OF assms(1)] t assms show ?thesis
    by (simp add: round_double_def)
qed


lemma double_below_1:
  assumes "is_double r" and "0 \<le> r" and "r < 1"
  shows "r \<le> 1 - 1 / 2 ^ 53"
proof (cases "r < 1/2")
  case True
  have "(1::rat) / 2 ^ 53 \<le> 1 / 2" by simp
  with True show ?thesis by linarith
next
  case False
  then have t: "binade_top r = 1" using assms(3) by (intro binade_top_half_1) simp_all
  from False have nz: "r \<noteq> 0" by auto
  define k where "k = round_half_even (r * 2 ^ 53)"
  from assms(1,2) nz have r: "r = of_int k / 2 ^ 53"
    by (simp add: is_double_def round_double_def round_mag_def ulp_def t k_def)
  with assms(3) have "(of_int k :: rat) < 2 ^ 53" by (simp add: field_simps)
  then have "(of_int k :: rat) < of_int (2 ^ 53)" by simp
  then have "k < 2 ^ 53" by (simp only: of_int_less_iff)
  then have "k \<le> 2 ^ 53 - 1" by simp
  then have "(of_int k :: rat) \<le> of_int (2 ^ 53 - 1)" by (simp only: of_int_le_iff)
  then have "(of_int k :: rat) \<le> 2 ^ 53 - 1" by simp
  then have "of_int k / 2 ^ 53 \<le> ((2 ^ 53 - 1) / 2 ^ 53 :: rat)"
    by (simp add: divide_right_mono)
  with r show ?thesis by (simp add: field_simps)
qed

lemma floor_times_3:
  assumes "is_double r" and "0 \<le> r" and "r < 1"
  shows "floor_times r 3 < 3"
proof -
  from double_below_1 [OF assms] have le: "r * 3 \<le> 3 - 3 / 2 ^ 53" by simp
  have nn: "0 \<le> r * 3" using assms(2) by simp
  have "round_double (r * 3) < 3"
  proof (cases "r * 3 < 2")
    case True
    from round_double_lt_2 [OF nn True] show ?thesis by simp
  next
    case False
    then have ge: "2 \<le> r * 3" by simp
    have lt4: "r * 3 < 4" using assms(3) by simp
    have t: "binade_top (r * 3) = 4" using ge lt4 by (rule binade_top_2_4)
    have u: "ulp (r * 3) = 1 / 2 ^ 51" by (simp add: ulp_def t)
    have "r * 3 * 2 ^ 51 \<le> (3 - 3 / 2 ^ 53) * 2 ^ 51"
      using le by (simp only: mult_right_mono zero_le_numeral zero_le_power)
    also have "\<dots> = of_int (3 * 2 ^ 51) - 3 / 4" by simp
    also have "\<dots> < of_int (3 * 2 ^ 51) - 1 / 2" by simp
    finally have "round_half_even (r * 3 * 2 ^ 51) \<le> 3 * 2 ^ 51 - 1"
      by (rule round_half_even_below)
    then have "(of_int (round_half_even (r * 3 * 2 ^ 51)) :: rat) \<le> of_int (3 * 2 ^ 51 - 1)"
      by (simp only: of_int_le_iff)
    then have "of_int (round_half_even (r * 3 * 2 ^ 51)) / 2 ^ 51 \<le> (of_int (3 * 2 ^ 51 - 1) / 2 ^ 51 :: rat)"
      by (simp only: divide_right_mono zero_le_numeral zero_le_power)
    also have "\<dots> < 3" by simp
    finally show ?thesis using ge by (simp add: round_double_def round_mag_def u)
  qed
  then have "\<lfloor>round_double (r * 3)\<rfloor> < 3" by (simp add: floor_less_iff)
  then have "nat \<lfloor>round_double (r * 3)\<rfloor> < 3" by linarith
  then show ?thesis by (simp add: floor_times_def)
qed

lemma floor_times_4:
  assumes "is_double r" and "0 \<le> r" and "r < 1"
  shows "floor_times r 4 < 4"
proof -
  from double_below_1 [OF assms] have le: "r * 4 \<le> 4 - 4 / 2 ^ 53" by simp
  have nn: "0 \<le> r * 4" using assms(2) by simp
  have "round_double (r * 4) < 4"
  proof (cases "r * 4 < 2")
    case True
    from round_double_lt_2 [OF nn True] show ?thesis by simp
  next
    case False
    then have ge: "2 \<le> r * 4" by simp
    have lt4: "r * 4 < 4" using assms(3) by simp
    have t: "binade_top (r * 4) = 4" using ge lt4 by (rule binade_top_2_4)
    have u: "ulp (r * 4) = 1 / 2 ^ 51" by (simp add: ulp_def t)
    have "r * 4 * 2 ^ 51 \<le> (4 - 4 / 2 ^ 53) * 2 ^ 51"
      using le by (simp only: mult_right_mono zero_le_numeral zero_le_power)
    also have "\<dots> = of_int (2 ^ 53 - 1)" by simp
    finally have "round_half_even (r * 4 * 2 ^ 51) \<le> 2 ^ 53 - 1"
      by (rule round_half_even_le)
    then have "(of_int (round_half_even (r * 4 * 2 ^ 51)) :: rat) \<le> of_int (2 ^ 53 - 1)"
      by (simp only: of_int_le_iff)
    then have "of_int (round_half_even (r * 4 * 2 ^ 51)) / 2 ^ 51 \<le> (of_int (2 ^ 53 - 1) / 2 ^ 51 :: rat)"
      by (simp only: divide_right_mono zero_le_numeral zero_le_power)
    also have "\<dots> < 4" by simp
    finally show ?thesis using ge by (simp add: round_double_def round_mag_def u)
  qed
  then have "\<lfloor>round_double (r * 4)\<rfloor> < 4" by (simp add: floor_less_iff)
  then have "nat \<lfloor>round_double (r * 4)\<rfloor> < 4" by linarith
  then show ?thesis by (simp add: floor_times_def)
qed

lemma double_limit_power: "double_limit = 2 ^ 1024"
  by (simp add: double_limit_def)

lemma rounding_examples:
  "round_double (3/2) = 3/2"
  "floor_times (6004799503160661 / 2 ^ 53) 3 = 2"
  "floor_times (6004799503160661 / 2 ^ 54) 3 = 1"
  "is_double (7/8)"
  "is_double (6004799503160661 / 2 ^ 53)"
  "\<not> is_double (1/3)"
  "round_double (1/10) = 3602879701896397 / 2 ^ 55"
  "round_double 0 = 0"
  by code_simp+

text \<open>
  C7, as the code has it: when the random numbers are doubles in \<open>[0, 1)\<close>, a generated
  review has 2 to 4 items and no actions; the item at position \<open>i\<close> has the risk level at
  \<open>i mod 3\<close> of high, medium, low and the excerpt at \<open>i mod 4\<close> of the excerpt pool, and
  its category, analysis, suggested adjustment and law reference are the entries of their
  pools at one index.
\<close>

theorem generator_shape:
  assumes "random_value (count_draw d)"
    and "\<forall>i. random_value (fst (item_draw d i))"
  shows "2 \<le> length (riskItems (createDummyAIResults d))
       \<and> length (riskItems (createDummyAIResults d)) \<le> 4
       \<and> actions (createDummyAIResults d) = []
       \<and> (\<forall>i < length (riskItems (createDummyAIResults d)).
            riskLevel (riskItems (createDummyAIResults d) ! i) = [Gao, Zhong, Di] ! (i mod 3)
            \<and> suspectedText (riskItems (createDummyAIResults d) ! i) = sampleTexts ! (i mod 4)
            \<and> (\<exists>idx < 4.
                  category (riskItems (createDummyAIResults d) ! i) = categories ! idx
                \<and> analysis (riskItems (createDummyAIResults d) ! i) = analysisSamples ! idx
                \<and> suggestedAdjustment (riskItems (createDummyAIResults d) ! i) = adjustmentSamples ! idx
                \<and> lawReference (riskItems (createDummyAIResults d) ! i) = lawRefSamples ! idx))"
proof -
  have n: "floor_times (count_draw d) 3 < 3"
    using assms(1) by (intro floor_times_3) (simp_all add: random_value_def)
  have items: "riskItems (createDummyAIResults d) = map (make_item d) [0..<floor_times (count_draw d) 3 + 2]"
    by (simp add: createDummyAIResults_def Let_def)
  have len: "length (riskItems (createDummyAIResults d)) = floor_times (count_draw d) 3 + 2"
    by (simp add: items)
  have idx: "floor_times (fst (item_draw d i)) 4 < 4" for i
    using assms(2) by (intro floor_times_4) (simp_all add: random_value_def)
  have lc: "length categories = 4" by (simp add: categories_def)
  have each: "riskLevel (make_item d i) = [Gao, Zhong, Di] ! (i mod 3)
            \<and> suspectedText (make_item d i) = sampleTexts ! (i mod 4)
            \<and> (\<exists>idx < 4.
                  category (make_item d i) = categories ! idx
                \<and> analysis (make_item d i) = analysisSamples ! idx
                \<and> suggestedAdjustment (make_item d i) = adjustmentSamples ! idx
                \<and> lawReference (make_item d i) = lawRefSamples ! idx)" for i
  proof -
    have "riskLevel (make_item d i) = [Gao, Zhong, Di] ! (i mod 3)"
      by (simp add: make_item_def Let_def riskLevels_def)
    moreover have "suspectedText (make_item d i) = sampleTexts ! (i mod 4)"
      by (simp add: make_item_def Let_def sampleTexts_def)
    moreover have "category (make_item d i) = categories ! floor_times (fst (item_draw d i)) 4
                \<and> analysis (make_item d i) = analysisSamples ! floor_times (fst (item_draw d i)) 4
                \<and> suggestedAdjustment (make_item d i) = adjustmentSamples ! floor_times (fst (item_draw d i)) 4
                \<and> lawReference (make_item d i) = lawRefSamples ! floor_times (fst (item_draw d i)) 4"
      by (simp add: make_item_def Let_def lc)
    ultimately show ?thesis using idx [of i] by blast
  qed
  have "actions (createDummyAIResults d) = []"
    by (simp add: createDummyAIResults_def Let_def)
  moreover have "\<forall>i < length (riskItems (createDummyAIResults d)).
            riskLevel (riskItems (createDummyAIResults d) ! i) = [Gao, Zhong, Di] ! (i mod 3)
            \<and> suspectedText (riskItems (createDummyAIResults d) ! i) = sampleTexts ! (i mod 4)
            \<and> (\<exists>idx < 4.
                  category (riskItems (createDummyAIResults d) ! i) = categories ! idx
                \<and> analysis (riskItems (createDummyAIResults d) ! i) = analysisSamples ! idx
                \<and> suggestedAdjustment (riskItems (createDummyAIResults d) ! i) = adjustmentSamples ! idx
                \<and> lawReference (riskItems (createDummyAIResults d) ! i) = lawRefSamples ! idx)"
  proof (intro allI impI)
    fix i assume "i < length (riskItems (createDummyAIResults d))"
    then have i: "i < floor_times (count_draw d) 3 + 2" by (simp add: len)
    then have "riskItems (createDummyAIResults d) ! i = make_item d i"
      unfolding items by (simp only: nth_map_upt) simp
    then show "riskLevel (riskItems (createDummyAIResults d) ! i) = [Gao, Zhong, Di] ! (i mod 3)
            \<and> suspectedText (riskItems (createDummyAIResults d) ! i) = sampleTexts ! (i mod 4)
            \<and> (\<exists>idx < 4.
                  category (riskItems (createDummyAIResults d) ! i) = categories ! idx
                \<and> analysis (riskItems (createDummyAIResults d) ! i) = analysisSamples ! idx
                \<and> suggestedAdjustment (riskItems (createDummyAIResults d) ! i) = adjustmentSamples ! idx
                \<and> lawReference (riskItems (createDummyAIResults d) ! i) = lawRefSamples ! idx)"
      using each [of i] by simp
  qed
  ultimately show ?thesis using n len by simp
qed

theorem generator_shape_witness:
  "length (riskItems (createDummyAIResults demo_draws)) = 3
   \<and> actions (createDummyAIResults demo_draws) = []
   \<and> riskLevel (riskItems (createDummyAIResults demo_draws) ! 1) = Zhong
   \<and> suspectedText (riskItems (createDummyAIResults demo_draws) ! 1) = sampleTexts ! 1
   \<and> length (riskItems (createDummyAIResults edge_draws)) = 4
   \<and> actions (createDummyAIResults edge_draws) = []
   \<and> riskLevel (riskItems (createDummyAIResults edge_draws) ! 3) = Gao
   \<and> suspectedText (riskItems (createDummyAIResults edge_draws) ! 3) = sampleTexts ! 3"
proof -
  have r1: "random_value (1/2)" and r2: "random_value (7/8)" and r3: "random_value (1/4)"
    and r4: "random_value (6004799503160661 / 2 ^ 53)" and r5: "random_value (6004799503160661 / 2 ^ 54)"
    by code_simp+
  have h1: "random_value (count_draw demo_draws)"
    using r1 by (simp add: demo_draws_def)
  have h2: "\<forall>i. random_value (fst (item_draw demo_draws i))"
    using r2 r3 by (simp add: demo_draws_def)
  have l: "length (riskItems (createDummyAIResults demo_draws)) = 3"
    by code_simp
  have k1: "random_value (count_draw edge_draws)"
    using r4 by (simp add: edge_draws_def)
  have k2: "\<forall>i. random_value (fst (item_draw edge_draws i))"
    using r5 by (simp add: edge_draws_def)
  have m: "length (riskItems (createDummyAIResults edge_draws)) = 4"
    by code_simp
  from generator_shape [OF h1 h2] l
  have a: "actions (createDummyAIResults demo_draws) = []
     \<and> riskLevel (riskItems (createDummyAIResults demo_draws) ! 1) = Zhong
     \<and> suspectedText (riskItems (createDummyAIResults demo_draws) ! 1) = sampleTexts ! 1"
    by simp
  from generator_shape [OF k1 k2] m
  have b: "actions (createDummyAIResults edge_draws) = []
     \<and> riskLevel (riskItems (createDummyAIResults edge_draws) ! 3) = Gao
     \<and> suspectedText (riskItems (createDummyAIResults edge_draws) ! 3) = sampleTexts ! 3"
    by simp
  from a b l m show ?thesis by simp
qed

text \<open>
  C7 as stated fails: the excerpt is not taken at the category index. With the first draw
  of \<open>demo_draws\<close> the first item has the category and the analysis of index 3 and the
  excerpt of index 0, which is another text than the excerpt of index 3.
\<close>

theorem excerpt_not_by_category_index:
  "category (riskItems (createDummyAIResults demo_draws) ! 0) = categories ! 3
   \<and> analysis (riskItems (createDummyAIResults demo_draws) ! 0) = analysisSamples ! 3
   \<and> suspectedText (riskItems (createDummyAIResults demo_draws) ! 0) = sampleTexts ! 0
   \<and> sampleTexts ! 0 \<noteq> sampleTexts ! 3
   \<and> categories ! 3 \<notin> {categories ! 0, categories ! 1, categories ! 2}"
  by code_simp


section \<open>Properties of the store operations\<close>

lemma find_project_split:
  assumes "find_project ident projects = Some p"
  shows "\<exists>before after. projects = before @ p # after
           \<and> find_project ident before = None
           \<and> id_project p = ident
           \<and> (\<forall>f. update_found ident f projects = before @ f p # after)"
  using assms
proof (induction projects)
  case Nil
  then show ?case by (simp add: find_project_def)
next
  case (Cons q qs)
  show ?case
  proof (cases "id_project q = ident")
    case True
    with Cons.prems have "q = p" by (simp add: find_project_def)
    with True have "q # qs = [] @ p # qs \<and> find_project ident [] = None \<and> id_project p = ident
        \<and> (\<forall>f. update_found ident f (q # qs) = [] @ f p # qs)"
      by (simp add: find_project_def)
    then show ?thesis by blast
  next
    case False
    with Cons.prems have "find_project ident qs = Some p" by (simp add: find_project_def)
    from Cons.IH [OF this] obtain before after where
      ba: "qs = before @ p # after" "find_project ident before = None" "id_project p = ident"
          "\<forall>f. update_found ident f qs = before @ f p # after"
      by blast
    with False have "q # qs = (q # before) @ p # after \<and> find_project ident (q # before) = None
        \<and> id_project p = ident \<and> (\<forall>f. update_found ident f (q # qs) = (q # before) @ f p # after)"
      by (simp add: find_project_def)
    then show ?thesis by blast
  qed
qed

lemma find_project_after_update:
  assumes "find_project ident projects = Some p" and "id_project (f p) = ident"
  shows "find_project ident (update_found ident f projects) = Some (f p)"
  using assms
  by (induction projects) (auto simp: find_project_def split: if_splits)

lemma demo_created_storage: "storage demo_created = [demo_project]"
  by code_simp

text \<open>
  C5: on a project found by its id, \<open>submitForDepartmentReview\<close> without a review leaves
  the stored collection as it is and shows the message to complete the review first; with a
  review it replaces the project found, and nothing else of the collection, by the project
  with status \<open>DEPT_REVIEWING\<close> and the new \<open>updatedAt\<close>.
\<close>

theorem submit_effect:
  assumes "find_project projectId (storage st) = Some p"
  shows "(aiReview p = None \<longrightarrow>
            storage (submitForDepartmentReview projectId now st) = storage st
          \<and> alerts (submitForDepartmentReview projectId now st) = alerts st @ [msg_review_first])
       \<and> (aiReview p \<noteq> None \<longrightarrow>
            (\<exists>before after.
                storage st = before @ p # after
              \<and> find_project projectId before = None
              \<and> storage (submitForDepartmentReview projectId now st)
                  = before @ p\<lparr>status := DEPT_REVIEWING, updatedAt := now\<rparr> # after))"
proof (cases "aiReview p")
  case None
  with assms show ?thesis
    by (simp add: submitForDepartmentReview_def getProjects_st_def alert_def)
next
  case (Some review)
  from find_project_split [OF assms] obtain before after where
    ba: "storage st = before @ p # after" "find_project projectId before = None"
        "\<forall>f. update_found projectId f (storage st) = before @ f p # after"
    by blast
  have "storage (submitForDepartmentReview projectId now st)
          = update_found projectId (\<lambda>p. p\<lparr>status := DEPT_REVIEWING, updatedAt := now\<rparr>) (storage st)"
    using assms Some
    by (simp add: submitForDepartmentReview_def getProjects_st_def alert_def saveProjects_st_def)
  also have "\<dots> = before @ p\<lparr>status := DEPT_REVIEWING, updatedAt := now\<rparr> # after"
    using ba(3) by simp
  finally have e: "storage (submitForDepartmentReview projectId now st)
                     = before @ p\<lparr>status := DEPT_REVIEWING, updatedAt := now\<rparr> # after" .
  have "\<exists>before after.
                storage st = before @ p # after
              \<and> find_project projectId before = None
              \<and> storage (submitForDepartmentReview projectId now st)
                  = before @ p\<lparr>status := DEPT_REVIEWING, updatedAt := now\<rparr> # after"
    by (rule exI [of _ before], rule exI [of _ after]) (simp only: ba(1,2) e simp_thms)
  with Some show ?thesis by simp
qed

lemma demo_reviewed_storage: "storage demo_reviewed = [hd (storage demo_reviewed)]"
  by code_simp

theorem submit_effect_witness:
  "find_project demo_pid (storage demo_created) = Some demo_project
   \<and> aiReview demo_project = None
   \<and> storage (submitForDepartmentReview demo_pid (lit ''2024-05-01 10:05'') demo_created) = [demo_project]
   \<and> alerts (submitForDepartmentReview demo_pid (lit ''2024-05-01 10:05'') demo_created) = [msg_review_first]
   \<and> find_project demo_pid (storage demo_reviewed) = Some (hd (storage demo_reviewed))
   \<and> aiReview (hd (storage demo_reviewed)) \<noteq> None
   \<and> storage (submitForDepartmentReview demo_pid (lit ''2024-05-01 10:05'') demo_reviewed)
       = [(hd (storage demo_reviewed))\<lparr>status := DEPT_REVIEWING, updatedAt := lit ''2024-05-01 10:05''\<rparr>]"
proof -
  have f: "find_project demo_pid (storage demo_created) = Some demo_project"
    by (simp add: demo_created_storage find_project_def demo_project_def)
  have n: "aiReview demo_project = None"
    by (simp add: demo_project_def)
  have a: "alerts demo_created = []"
    by code_simp
  from submit_effect [OF f, of "lit ''2024-05-01 10:05''"] n a
  have first: "storage (submitForDepartmentReview demo_pid (lit ''2024-05-01 10:05'') demo_created) = [demo_project]
     \<and> alerts (submitForDepartmentReview demo_pid (lit ''2024-05-01 10:05'') demo_created) = [msg_review_first]"
    by (simp add: demo_created_storage)
  have g: "find_project demo_pid (storage demo_reviewed) = Some (hd (storage demo_reviewed))"
    by code_simp
  have r: "aiReview (hd (storage demo_reviewed)) \<noteq> None"
    by code_simp
  from submit_effect [OF g, of "lit ''2024-05-01 10:05''"] r obtain before after where
    ba: "storage demo_reviewed = before @ hd (storage demo_reviewed) # after"
        "storage (submitForDepartmentReview demo_pid (lit ''2024-05-01 10:05'') demo_reviewed)
           = before @ (hd (storage demo_reviewed))\<lparr>status := DEPT_REVIEWING, updatedAt := lit ''2024-05-01 10:05''\<rparr>
               # after"
    by blast
  from ba(1) demo_reviewed_storage have "length (before @ hd (storage demo_reviewed) # after) = 1"
    by (metis length_Cons list.size(3) One_nat_def)
  then have "before = [] \<and> after = []" by simp
  with ba(2) have second: "storage (submitForDepartmentReview demo_pid (lit ''2024-05-01 10:05'') demo_reviewed)
       = [(hd (storage demo_reviewed))\<lparr>status := DEPT_REVIEWING, updatedAt := lit ''2024-05-01 10:05''\<rparr>]"
    by simp
  from f n first g r second show ?thesis by simp
qed

text \<open>
  C9, as the code has it: when no project of the collection has the id, \<open>saveRiskActions\<close>
  and \<open>submitForDepartmentReview\<close> return at once, with no message and no change, and the
  detail view (called with a non-empty id) shows the message that the project was not
  found and changes nothing in the collection.
\<close>

theorem missing_project:
  assumes "find_project projectId (storage st) = None"
  shows "saveRiskActions projectId form now st = st
       \<and> submitForDepartmentReview projectId now st = st
       \<and> (projectId \<noteq> [] \<longrightarrow>
            storage (displayProjectDetail (Some projectId) st) = storage st
          \<and> alerts (displayProjectDetail (Some projectId) st) = alerts st @ [msg_not_found])"
  using assms
  by (simp add: saveRiskActions_def submitForDepartmentReview_def displayProjectDetail_def
        getProjects_st_def alert_def)

theorem missing_project_witness:
  "find_project (lit ''P404'') (storage demo_created) = None
   \<and> lit ''P404'' \<noteq> []
   \<and> submitForDepartmentReview (lit ''P404'') (lit ''2024-05-01 10:05'') demo_created = demo_created
   \<and> alerts (displayProjectDetail (Some (lit ''P404'')) demo_created) = [msg_not_found]"
proof -
  have f: "find_project (lit ''P404'') (storage demo_created) = None"
    by code_simp
  have ne: "lit ''P404'' \<noteq> []"
    by (simp add: lit_def)
  have a: "alerts demo_created = []"
    by code_simp
  from missing_project [OF f, of "\<lparr> selects = [], textareas = [] \<rparr>" "lit ''2024-05-01 10:05''"] ne a f
  show ?thesis by simp
qed

text \<open>
  C9 as stated fails: with an id that no project has, \<open>submitForDepartmentReview\<close> and
  \<open>saveRiskActions\<close> show no message.
\<close>

theorem submit_missing_is_silent:
  "find_project (lit ''P404'') (storage initial_state) = None
   \<and> alerts (submitForDepartmentReview (lit ''P404'') (lit ''2024-05-01 10:00'') initial_state) = []
   \<and> alerts (saveRiskActions (lit ''P404'') \<lparr> selects = [(lit ''R1'', lit ''adopt'')], textareas = [] \<rparr>
               (lit ''2024-05-01 10:00'') initial_state) = []"
  by (simp add: initial_state_def find_project_def submitForDepartmentReview_def saveRiskActions_def getProjects_st_def)


section \<open>The lifecycle invariant\<close>

lemma update_found_ok:
  assumes "\<forall>p\<in>set projects. lifecycle_ok p"
    and "\<And>p. find_project ident projects = Some p \<Longrightarrow> lifecycle_ok (f p)"
  shows "\<forall>p\<in>set (update_found ident f projects). lifecycle_ok p"
proof (cases "find_project ident projects")
  case None
  then have "update_found ident f projects = projects"
    by (induction projects) (auto simp: find_project_def split: if_splits)
  with assms(1) show ?thesis by simp
next
  case (Some p)
  from find_project_split [OF Some] obtain before after where
    "projects = before @ p # after" "\<forall>f. update_found ident f projects = before @ f p # after"
    by blast
  with assms(1) assms(2) [OF Some] show ?thesis by auto
qed

lemma all_ok_create: "all_ok st \<Longrightarrow> all_ok (handleCreateProject form src now st)"
  by (auto simp: all_ok_def handleCreateProject_def Let_def alert_def saveProjects_st_def
        getProjects_st_def lifecycle_ok_def)

lemma all_ok_start:
  assumes "all_ok st" and "find_project projectId (storage st) = Some p" and "aiReview p = None"
  shows "all_ok (startAIReview projectId now st)"
proof -
  have "\<forall>q\<in>set (update_found projectId (\<lambda>p. p\<lparr>status := AI_REVIEWING, updatedAt := now\<rparr>) (storage st)). lifecycle_ok q"
    using assms by (intro update_found_ok) (simp_all add: all_ok_def lifecycle_ok_def)
  with assms show ?thesis
    by (auto simp: startAIReview_def getProjects_st_def saveProjects_st_def Let_def all_ok_def)
qed

lemma all_ok_complete:
  assumes "all_ok st" shows "all_ok (run_timer k d now st)"
proof (cases "k < length (timers st)")
  case False
  with assms show ?thesis by (simp add: run_timer_def)
next
  case True
  then have "timers st ! k \<in> set (timers st)" by simp
  with assms have snap: "\<forall>p\<in>set (fst (timers st ! k)). lifecycle_ok p"
    by (simp add: all_ok_def)
  have "\<forall>q\<in>set (update_found (snd (timers st ! k))
            (\<lambda>p. p\<lparr>aiReview := Some (createDummyAIResults d), status := AI_COMPLETED, updatedAt := now\<rparr>)
            (fst (timers st ! k))). lifecycle_ok q"
    using snap by (intro update_found_ok) (simp_all add: lifecycle_ok_def)
  moreover have "\<forall>t\<in>set (take k (timers st) @ drop (Suc k) (timers st)). \<forall>p\<in>set (fst t). lifecycle_ok p"
    using assms by (auto simp: all_ok_def dest: in_set_takeD in_set_dropD)
  ultimately show ?thesis using True
    by (simp add: run_timer_def review_callback_def saveProjects_st_def Let_def all_ok_def)
qed

lemma all_ok_save:
  assumes "all_ok st" shows "all_ok (saveRiskActions projectId form now st)"
proof (cases "find_project projectId (storage st)")
  case None
  with assms show ?thesis by (simp add: saveRiskActions_def getProjects_st_def)
next
  case (Some p)
  show ?thesis
  proof (cases "aiReview p")
    case None
    with assms Some show ?thesis by (simp add: saveRiskActions_def getProjects_st_def)
  next
    case (Some review)
    from \<open>find_project projectId (storage st) = Some p\<close> have "p \<in> set (storage st)"
      using find_project_split by fastforce
    with assms have "lifecycle_ok p" by (simp add: all_ok_def)
    with Some have ok: "lifecycle_ok (p\<lparr>aiReview := Some (review\<lparr>actions := save_actions form (actions review)\<rparr>), updatedAt := now\<rparr>)"
      by (simp add: lifecycle_ok_def)
    have "\<forall>q\<in>set (update_found projectId
            (\<lambda>p. p\<lparr>aiReview := Some (review\<lparr>actions := save_actions form (actions review)\<rparr>), updatedAt := now\<rparr>)
            (storage st)). lifecycle_ok q"
      using assms ok \<open>find_project projectId (storage st) = Some p\<close>
      by (intro update_found_ok) (simp_all add: all_ok_def)
    with assms Some \<open>find_project projectId (storage st) = Some p\<close> show ?thesis
      by (simp add: saveRiskActions_def getProjects_st_def saveProjects_st_def alert_def Let_def all_ok_def)
  qed
qed

lemma all_ok_submit:
  assumes "all_ok st" shows "all_ok (submitForDepartmentReview projectId now st)"
proof (cases "find_project projectId (storage st)")
  case None
  with assms show ?thesis by (simp add: submitForDepartmentReview_def getProjects_st_def)
next
  case (Some p)
  show ?thesis
  proof (cases "aiReview p")
    case None
    with assms Some show ?thesis
      by (simp add: submitForDepartmentReview_def getProjects_st_def alert_def all_ok_def)
  next
    case (Some review)
    have "\<forall>q\<in>set (update_found projectId (\<lambda>p. p\<lparr>status := DEPT_REVIEWING, updatedAt := now\<rparr>) (storage st)). lifecycle_ok q"
      using assms Some \<open>find_project projectId (storage st) = Some p\<close>
      by (intro update_found_ok) (simp_all add: all_ok_def lifecycle_ok_def)
    with assms Some \<open>find_project projectId (storage st) = Some p\<close> show ?thesis
      by (simp add: submitForDepartmentReview_def getProjects_st_def saveProjects_st_def alert_def Let_def all_ok_def)
  qed
qed

lemma reachable_all_ok: "reachable st \<Longrightarrow> all_ok st"
proof (induction rule: reachable.induct)
  case r_init
  show ?case by (simp add: all_ok_def initial_state_def)
next
  case (r_start st projectId p now)
  then show ?case by (simp add: all_ok_start)
qed (simp_all add: all_ok_create all_ok_complete all_ok_save all_ok_submit)

text \<open>
  C2: in every state reached by the operations from the empty store, a project has a review
  if and only if its status is \<open>AI_COMPLETED\<close>, \<open>DEPT_REVIEWING\<close> or \<open>APPROVED\<close>, and it
  has none while its status is \<open>DRAFT\<close> or \<open>AI_REVIEWING\<close>.
\<close>

theorem reachable_lifecycle:
  assumes "reachable st" and "p \<in> set (storage st)"
  shows "(aiReview p \<noteq> None \<longleftrightarrow> status p \<in> {AI_COMPLETED, DEPT_REVIEWING, APPROVED})
       \<and> (status p = DRAFT \<or> status p = AI_REVIEWING \<longrightarrow> aiReview p = None)"
  using reachable_all_ok [OF assms(1)] assms(2) by (auto simp add: all_ok_def lifecycle_ok_def)

lemma demo_created_reachable: "reachable demo_created"
  unfolding demo_created_def by (intro reachable.intros)

lemma demo_started_reachable: "reachable demo_started"
proof -
  have f: "find_project demo_pid (storage demo_created) = Some demo_project"
    by (simp add: demo_created_storage find_project_def demo_project_def)
  have n: "aiReview demo_project = None"
    by (simp add: demo_project_def)
  from reachable.r_start [OF demo_created_reachable f n] show ?thesis
    by (simp add: demo_started_def)
qed

lemma demo_reviewed_reachable: "reachable demo_reviewed"
  unfolding demo_reviewed_def by (intro reachable.r_complete demo_started_reachable)

theorem reachable_lifecycle_witness:
  "reachable demo_reviewed
   \<and> hd (storage demo_reviewed) \<in> set (storage demo_reviewed)
   \<and> status (hd (storage demo_reviewed)) = AI_COMPLETED
   \<and> aiReview (hd (storage demo_reviewed)) \<noteq> None
   \<and> reachable demo_started
   \<and> hd (storage demo_started) \<in> set (storage demo_started)
   \<and> status (hd (storage demo_started)) = AI_REVIEWING
   \<and> aiReview (hd (storage demo_started)) = None
   \<and> reachable demo_created
   \<and> demo_project \<in> set (storage demo_created)
   \<and> status demo_project = DRAFT
   \<and> aiReview demo_project = None"
proof -
  have m: "hd (storage demo_reviewed) \<in> set (storage demo_reviewed)"
    by code_simp
  have c: "status (hd (storage demo_reviewed)) = AI_COMPLETED"
    by code_simp
  have m1: "hd (storage demo_started) \<in> set (storage demo_started)"
    by code_simp
  have c1: "status (hd (storage demo_started)) = AI_REVIEWING"
    by code_simp
  have m': "demo_project \<in> set (storage demo_created)"
    by (simp add: demo_created_storage)
  have c': "status demo_project = DRAFT"
    by (simp add: demo_project_def)
  from reachable_lifecycle [OF demo_reviewed_reachable m] c
  have "aiReview (hd (storage demo_reviewed)) \<noteq> None" by simp
  moreover from reachable_lifecycle [OF demo_started_reachable m1] c1
  have "aiReview (hd (storage demo_started)) = None" by simp
  moreover from reachable_lifecycle [OF demo_created_reachable m'] c'
  have "aiReview demo_project = None" by simp
  ultimately show ?thesis
    using demo_reviewed_reachable demo_started_reachable demo_created_reachable m c m1 c1 m' c' by simp
qed

section \<open>Saving the dispositions\<close>

lemma save_select_update:
  "save_select form acts sel =
     (if snd sel \<noteq> [] then AList.update (fst sel) (form_disposition form sel) acts else acts)"
  by (simp add: save_select_def form_disposition_def Let_def)

lemma map_of_foldl_save_select:
  "map_of (foldl (save_select form) acts sels) k =
     (case filter (\<lambda>sel. fst sel = k \<and> snd sel \<noteq> []) (rev sels) of
        [] \<Rightarrow> map_of acts k
      | sel # _ \<Rightarrow> Some (form_disposition form sel))"
proof (induction sels rule: rev_induct)
  case Nil
  show ?case by simp
next
  case (snoc sel sels)
  show ?case
    using snoc.IH by (simp add: save_select_update update_conv')
qed

lemma assign_all_Cons:
  "assign_all g ((k, v) # bs) = (k, last_value g k v) # assign_all (filter (\<lambda>kd. fst kd \<noteq> k) g) bs"
proof (induction g arbitrary: v bs)
  case Nil
  show ?case by (simp add: assign_all_def last_value_def)
next
  case (Cons kd g)
  show ?case
  proof (cases "fst kd = k")
    case True
    have "assign_all (kd # g) ((k, v) # bs) = assign_all g ((k, snd kd) # bs)"
      using True by (simp add: assign_all_def)
    also have "\<dots> = (k, last_value g k (snd kd)) # assign_all (filter (\<lambda>kd. fst kd \<noteq> k) g) bs"
      by (rule Cons.IH)
    finally show ?thesis using True by (simp add: last_value_def)
  next
    case False
    have "assign_all (kd # g) ((k, v) # bs) = assign_all g ((k, v) # AList.update (fst kd) (snd kd) bs)"
      using False by (simp add: assign_all_def)
    also have "\<dots> = (k, last_value g k v)
                  # assign_all (filter (\<lambda>kd. fst kd \<noteq> k) g) (AList.update (fst kd) (snd kd) bs)"
      by (rule Cons.IH)
    finally show ?thesis using False by (simp add: last_value_def assign_all_def)
  qed
qed

lemma last_value_twice: "last_value g k (last_value g k v) = last_value g k v"
proof (induction g arbitrary: v)
  case Nil
  show ?case by (simp add: last_value_def)
next
  case (Cons kd g)
  have step: "last_value (kd # g) k w = last_value g k (if fst kd = k then snd kd else w)" for w
    by (simp add: last_value_def)
  show ?case
  proof (cases "fst kd = k")
    case True
    then show ?thesis by (simp add: step)
  next
    case False
    then show ?thesis using Cons.IH [of v] by (simp add: step)
  qed
qed

lemma assign_all_twice_Nil: "assign_all g (assign_all g []) = assign_all g []"
proof (induction "length g" arbitrary: g rule: less_induct)
  case less
  show ?case
  proof (cases g)
    case Nil
    then show ?thesis by (simp add: assign_all_def)
  next
    case (Cons kd gs)
    obtain k d where kd: "kd = (k, d)" by (cases kd)
    let ?gs' = "filter (\<lambda>kd. fst kd \<noteq> k) gs"
    have first: "assign_all g [] = (k, last_value gs k d) # assign_all ?gs' []"
    proof -
      have "assign_all g [] = assign_all gs [(k, d)]"
        by (simp add: Cons kd assign_all_def)
      then show ?thesis by (simp add: assign_all_Cons)
    qed
    have flt: "filter (\<lambda>kd. fst kd \<noteq> k) g = ?gs'"
      by (simp add: Cons kd)
    have lv: "last_value g k w = last_value gs k d" for w
      by (simp add: Cons kd last_value_def)
    have "length ?gs' < length g"
      by (simp add: Cons less_Suc_eq_le)
    then have ih: "assign_all ?gs' (assign_all ?gs' []) = assign_all ?gs' []"
      by (rule less.hyps)
    have "assign_all g (assign_all g []) = assign_all g ((k, last_value gs k d) # assign_all ?gs' [])"
      by (simp only: first)
    also have "\<dots> = (k, last_value g k (last_value gs k d)) # assign_all ?gs' (assign_all ?gs' [])"
      by (simp only: assign_all_Cons flt)
    also have "\<dots> = (k, last_value gs k d) # assign_all ?gs' []"
      by (simp only: lv ih)
    finally show ?thesis by (simp only: first)
  qed
qed

lemma assign_all_twice: "assign_all g (assign_all g al) = assign_all g al"
proof (induction al arbitrary: g)
  case Nil
  show ?case by (rule assign_all_twice_Nil)
next
  case (Cons kv al)
  obtain k v where kv: "kv = (k, v)" by (cases kv)
  show ?case
    by (simp add: kv assign_all_Cons last_value_twice Cons.IH)
qed

lemma foldl_save_select_assign:
  "foldl (save_select form) acts sels =
     assign_all (map (\<lambda>sel. (fst sel, form_disposition form sel)) (filter (\<lambda>sel. snd sel \<noteq> []) sels)) acts"
  by (induction sels arbitrary: acts) (simp_all add: save_select_update assign_all_def)

lemma save_actions_twice: "save_actions form (save_actions form acts) = save_actions form acts"
  by (simp add: save_actions_def foldl_save_select_assign assign_all_twice)

lemma map_of_save_actions:
  "map_of (save_actions form acts) k = (case chosen form k of None \<Rightarrow> map_of acts k | Some d \<Rightarrow> Some d)"
  by (simp add: save_actions_def chosen_def map_of_foldl_save_select split: list.splits)

lemma actions_of_saveRiskActions:
  assumes "actions_of projectId st = Some acts"
  shows "actions_of projectId (saveRiskActions projectId form now st) = Some (save_actions form acts)"
proof -
  from assms obtain p review where
    p: "find_project projectId (storage st) = Some p" and r: "aiReview p = Some review"
    and a: "actions review = acts"
    by (auto simp: actions_of_def split: option.splits)
  from find_project_split [OF p] have idp: "id_project p = projectId" by blast
  have "find_project projectId (update_found projectId
          (\<lambda>p. p\<lparr>aiReview := Some (review\<lparr>actions := save_actions form (actions review)\<rparr>), updatedAt := now\<rparr>)
          (storage st))
        = Some (p\<lparr>aiReview := Some (review\<lparr>actions := save_actions form (actions review)\<rparr>), updatedAt := now\<rparr>)"
    using p idp by (intro find_project_after_update) simp_all
  then show ?thesis using p r a
    by (simp add: actions_of_def saveRiskActions_def getProjects_st_def saveProjects_st_def alert_def Let_def)
qed

text \<open>
  C6: on a project with a review, \<open>saveRiskActions\<close> leaves the actions
  \<open>save_actions form acts\<close>, in which a risk id has the disposition of the form when the
  form has a \<open>select\<close> of that id with a type chosen (the last such one), and keeps what it
  had before otherwise; saving the same form once more leaves the same actions, key by key
  and in the same order.
\<close>

theorem saveRiskActions_merge:
  assumes "actions_of projectId st = Some acts"
  shows "actions_of projectId (saveRiskActions projectId form now st) = Some (save_actions form acts)
       \<and> actions_of projectId (saveRiskActions projectId form now' (saveRiskActions projectId form now st))
           = Some (save_actions form acts)
       \<and> (\<forall>k. map_of (save_actions form acts) k
                = (case chosen form k of None \<Rightarrow> map_of acts k | Some d \<Rightarrow> Some d))"
proof -
  note first = actions_of_saveRiskActions [OF assms, of form now]
  from actions_of_saveRiskActions [OF first, of form now']
  have "actions_of projectId (saveRiskActions projectId form now' (saveRiskActions projectId form now st))
           = Some (save_actions form acts)"
    by (simp add: save_actions_twice)
  with first show ?thesis by (simp add: map_of_save_actions)
qed

theorem saveRiskActions_merge_witness:
  "actions_of demo_pid demo_reviewed = Some []
   \<and> actions_of demo_pid (saveRiskActions demo_pid demo_actions (lit ''2024-05-01 10:04'') demo_reviewed)
       = Some [(lit ''Rk3f9alz0qx1'', \<lparr> type_d = lit ''adopt'', desc = lit ''agreed'' \<rparr>),
               (lit ''Rk3f9alz0qx3'', \<lparr> type_d = lit ''reject'', desc = [] \<rparr>)]
   \<and> actions_of demo_pid
         (saveRiskActions demo_pid demo_actions (lit ''2024-05-01 10:05'')
           (saveRiskActions demo_pid demo_actions (lit ''2024-05-01 10:04'') demo_reviewed))
       = Some [(lit ''Rk3f9alz0qx1'', \<lparr> type_d = lit ''adopt'', desc = lit ''agreed'' \<rparr>),
               (lit ''Rk3f9alz0qx3'', \<lparr> type_d = lit ''reject'', desc = [] \<rparr>)]"
proof -
  have h: "actions_of demo_pid demo_reviewed = Some []"
    by code_simp
  have v: "save_actions demo_actions []
             = [(lit ''Rk3f9alz0qx1'', \<lparr> type_d = lit ''adopt'', desc = lit ''agreed'' \<rparr>),
                (lit ''Rk3f9alz0qx3'', \<lparr> type_d = lit ''reject'', desc = [] \<rparr>)]"
    by code_simp
  from saveRiskActions_merge [OF h, of demo_actions "lit ''2024-05-01 10:04''" "lit ''2024-05-01 10:05''"]
  show ?thesis using h by (simp only: v simp_thms)
qed

section \<open>JSON: what is written is read back\<close>

lemma JSON_parse_examples:
  "JSON_parse (lit '' [ true, null ,{}, [[]], 7] '')
     = Some (Array [Boolean True, Null, Object [], Array [Array []], Number (Fin 7)])"
  "JSON_parse (lit ''-12.50e1'') = Some (Number (Fin (-125)))"
  "JSON_parse (lit ''-0'') = Some (Number NegZero)"
  "JSON_parse (lit ''0.1'') = Some (Number (Fin (3602879701896397 / 2 ^ 55)))"
  "JSON_parse (lit ''9007199254740993'') = Some (Number (Fin 9007199254740992))"
  "JSON_parse (lit ''[1,]'') = None"
  "JSON_parse (lit ''[1 2]'') = None"
  "JSON_parse (lit ''01'') = None"
  "JSON_parse (lit ''1.'') = None"
  "JSON_parse (lit ''{}x'') = None"
  "JSON_parse [] = None"
  "JSON_parse ([0x22] @ lit ''a'' @ [0x5C, 0x75] @ lit ''0041'' @ [0x5C, 0x6E, 0x22])
     = Some (String (lit ''aA'' @ [0xA]))"
  "JSON_parse (lit ''{'' @ [0x22] @ lit ''a'' @ [0x22] @ lit '':12,'' @ [0x22] @ lit ''a'' @ [0x22] @ lit '':[]}'')
     = Some (Object [(lit ''a'', Array [])])"
  by code_simp+

lemma JSON_stringify_example:
  "JSON_stringify ns (Array [Null, Undefined, Object [(lit ''a'', Boolean True), (lit ''b'', Undefined)],
                            String [0x61, 0x22, 0xD800, 0x1F]])
   = Some (lit ''[null,null,{'' @ [0x22] @ lit ''a'' @ [0x22] @ lit '':true},'' @ [0x22] @ lit ''a''
           @ [0x5C, 0x22, 0x5C] @ lit ''ud800'' @ [0x5C] @ lit ''u001f'' @ [0x22] @ lit '']'')"
  by code_simp

lemma hex_val_hex_digit:
  assumes "unat k < 16" shows "hex_val (hex_digit k) = Some k"
proof -
  from assms have "unat k = 0 \<or> unat k = 1 \<or> unat k = 2 \<or> unat k = 3 \<or> unat k = 4 \<or> unat k = 5
        \<or> unat k = 6 \<or> unat k = 7 \<or> unat k = 8 \<or> unat k = 9 \<or> unat k = 10 \<or> unat k = 11
        \<or> unat k = 12 \<or> unat k = 13 \<or> unat k = 14 \<or> unat k = 15"
    by arith
  then have "k = 0 \<or> k = 1 \<or> k = 2 \<or> k = 3 \<or> k = 4 \<or> k = 5 \<or> k = 6 \<or> k = 7 \<or> k = 8
        \<or> k = 9 \<or> k = 10 \<or> k = 11 \<or> k = 12 \<or> k = 13 \<or> k = 14 \<or> k = 15"
    by (simp add: word_unat_eq_iff)
  then show ?thesis
    by (elim disjE) (simp_all add: hex_val_def hex_digit_def)
qed

lemma nibbles: "((n div 4096 * 16 + n div 256 mod 16) * 16 + n div 16 mod 16) * 16 + n mod 16 = (n::nat)"
proof -
  have a: "n div 256 = n div 16 div 16" by (simp add: div_mult2_eq)
  have b: "n div 4096 = n div 16 div 16 div 16" by (simp add: div_mult2_eq)
  have "n div 16 div 16 div 16 * 16 + n div 16 div 16 mod 16 = n div 16 div 16" by simp
  moreover have "n div 16 div 16 * 16 + n div 16 mod 16 = n div 16" by simp
  moreover have "n div 16 * 16 + n mod 16 = n" by simp
  ultimately show ?thesis unfolding a b by simp
qed

lemma word_nibbles:
  "((c div 0x1000 * 16 + c div 0x100 mod 0x10) * 16 + c div 0x10 mod 0x10) * 16 + c mod 0x10 = (c :: 16 word)"
proof -
  have mm: "x mod 65536 mod 16 = x mod 16" for x :: nat
    by (simp add: mod_mod_cancel)
  have "unat (((c div 0x1000 * 16 + c div 0x100 mod 0x10) * 16 + c div 0x10 mod 0x10) * 16 + c mod 0x10)
        = (((unat c div 4096 * 16 + unat c div 256 mod 16) * 16 + unat c div 16 mod 16) * 16 + unat c mod 16)
            mod 65536"
    by (simp add: unat_word_ariths unat_div unat_mod mod_simps mm)
  also have "\<dots> = unat c mod 65536"
    by (simp only: nibbles)
  also have "\<dots> = unat c"
    using unsigned_less [of c, where 'a = nat] by simp
  finally show ?thesis by (simp add: word_unat_eq_iff)
qed

lemma hex4_unicode_escape: "hex4 (take 4 (drop 2 (unicode_escape c) @ rest)) = Some c"
proof -
  have lt: "unat c < 65536" using unsigned_less [of c, where 'a = nat] by simp
  have d3: "unat (c div 0x1000) < 16" using lt by (simp add: unat_div)
  have d2: "unat (c div 0x100 mod 0x10) < 16" by (simp add: unat_mod)
  have d1: "unat (c div 0x10 mod 0x10) < 16" by (simp add: unat_mod)
  have d0: "unat (c mod 0x10) < 16" by (simp add: unat_mod)
  have t: "take 4 (drop 2 (unicode_escape c) @ rest)
             = [hex_digit (c div 0x1000), hex_digit (c div 0x100 mod 0x10),
                hex_digit (c div 0x10 mod 0x10), hex_digit (c mod 0x10)]"
    by (simp add: unicode_escape_def)
  show ?thesis
    unfolding t
    by (simp only: hex4.simps hex_val_hex_digit [OF d3] hex_val_hex_digit [OF d2]
          hex_val_hex_digit [OF d1] hex_val_hex_digit [OF d0] prod.case option.case word_nibbles)
qed

lemma lex_string_unicode_escape:
  "lex_string (unicode_escape c @ rest) =
     (case lex_string rest of None \<Rightarrow> None | Some (str, r) \<Rightarrow> Some (c # str, r))"
proof -
  have e: "unicode_escape c @ rest = 0x5C # 0x75 # (drop 2 (unicode_escape c) @ rest)"
    by (simp add: unicode_escape_def)
  have d: "drop 4 (drop 2 (unicode_escape c) @ rest) = rest"
    by (simp add: unicode_escape_def)
  have "lex_string (0x5C # 0x75 # (drop 2 (unicode_escape c) @ rest))
          = (case hex4 (take 4 (drop 2 (unicode_escape c) @ rest)) of
               None \<Rightarrow> None
             | Some u \<Rightarrow>
                 (case lex_string (drop 4 (drop 2 (unicode_escape c) @ rest)) of
                    None \<Rightarrow> None
                  | Some (str, r) \<Rightarrow> Some (u # str, r)))"
    by (simp del: take_append drop_append)
  then show ?thesis
    by (simp only: e hex4_unicode_escape d option.case)
qed

lemma plain_unit:
  assumes "c \<noteq> 0x22" and "c \<noteq> 0x5C" and "\<not> c < 0x20"
  shows "lex_string (c # rest) = (case lex_string rest of None \<Rightarrow> None | Some (str, r) \<Rightarrow> Some (c # str, r))"
  using assms by simp

lemma lex_string_escape_unit:
  "lex_string (escape_unit c @ rest) =
     (case lex_string rest of None \<Rightarrow> None | Some (str, r) \<Rightarrow> Some (c # str, r))"
proof -
  consider "c = 0x8" | "c = 0x9" | "c = 0xA" | "c = 0xC" | "c = 0xD" | "c = 0x22" | "c = 0x5C"
    | "c \<notin> {0x8, 0x9, 0xA, 0xC, 0xD, 0x22, 0x5C}" "c < 0x20"
    | "c \<notin> {0x8, 0x9, 0xA, 0xC, 0xD, 0x22, 0x5C}" "\<not> c < 0x20"
    by blast
  then show ?thesis
  proof cases
    case 8
    then have "escape_unit c = unicode_escape c" by (simp add: escape_unit_def)
    then show ?thesis by (simp only: lex_string_unicode_escape)
  next
    case 9
    then have "escape_unit c = [c]" by (simp add: escape_unit_def)
    with 9 show ?thesis by simp
  qed (auto simp add: escape_unit_def unescape_def)
qed

lemma surrogate_plain:
  "is_high c \<or> is_low c \<Longrightarrow> c \<noteq> 0x22 \<and> c \<noteq> 0x5C \<and> \<not> c < 0x20"
  by (auto simp: is_high_def is_low_def word_le_nat_alt word_less_nat_alt)

lemma lex_string_quote_chars:
  "lex_string (quote_chars s @ 0x22 # rest) = Some (s, rest)"
proof (induction s rule: quote_chars.induct)
  case 1
  show ?case by simp
next
  case (2 c)
  show ?case
    by (simp add: lex_string_unicode_escape lex_string_escape_unit del: lex_string.simps)
       (simp)
next
  case (3 c d cs)
  show ?case
  proof (cases "is_high c")
    case h: True
    show ?thesis
    proof (cases "is_low d")
      case True
      have "quote_chars (c # d # cs) @ 0x22 # rest = c # d # (quote_chars cs @ 0x22 # rest)"
        using h True by simp
      moreover have "lex_string (c # d # (quote_chars cs @ 0x22 # rest)) = Some (c # d # cs, rest)"
        using surrogate_plain [of c] surrogate_plain [of d] h True "3.IH"(1) [OF h True]
        by (simp add: plain_unit del: lex_string.simps)
      ultimately show ?thesis by simp
    next
      case False
      have "quote_chars (c # d # cs) @ 0x22 # rest = unicode_escape c @ (quote_chars (d # cs) @ 0x22 # rest)"
        using h False by simp
      then show ?thesis
        using "3.IH"(2) [OF h False]
        by (simp only: lex_string_unicode_escape) simp
    qed
  next
    case nh: False
    show ?thesis
    proof (cases "is_low c")
      case True
      have "quote_chars (c # d # cs) @ 0x22 # rest = unicode_escape c @ (quote_chars (d # cs) @ 0x22 # rest)"
        using nh True by simp
      then show ?thesis
        using "3.IH"(3) [OF nh True]
        by (simp only: lex_string_unicode_escape) simp
    next
      case False
      have "quote_chars (c # d # cs) @ 0x22 # rest = escape_unit c @ (quote_chars (d # cs) @ 0x22 # rest)"
        using nh False by simp
      then show ?thesis
        using "3.IH"(4) [OF nh False]
        by (simp only: lex_string_escape_unit) simp
    qed
  qed
qed

lemma tokenize_punct:
  "tokenize (0x7B # s) = map_option (Cons LBRACE) (tokenize s)"
  "tokenize (0x7D # s) = map_option (Cons RBRACE) (tokenize s)"
  "tokenize (0x5B # s) = map_option (Cons LBRACK) (tokenize s)"
  "tokenize (0x5D # s) = map_option (Cons RBRACK) (tokenize s)"
  "tokenize (0x3A # s) = map_option (Cons COLON) (tokenize s)"
  "tokenize (0x2C # s) = map_option (Cons COMMA) (tokenize s)"
  by (simp_all add: is_json_space_def)

lemma tokenize_words:
  "tokenize (lit ''null'' @ s) = map_option (Cons TNULL) (tokenize s)"
  "tokenize (lit ''true'' @ s) = map_option (Cons TTRUE) (tokenize s)"
  "tokenize (lit ''false'' @ s) = map_option (Cons TFALSE) (tokenize s)"
  by (simp_all add: lit_def is_json_space_def is_digit_def)

lemma tokenize_quote:
  "tokenize (quote str @ s) = map_option (Cons (TSTRING str)) (tokenize s)"
  by (simp add: quote_def is_json_space_def lex_string_quote_chars)

declare tokenize.simps [simp del]


declare parse_value.simps [simp del] parse_elements.simps [simp del] parse_members.simps [simp del]

lemma lexes_back_elements:
  assumes "\<forall>v\<in>set vs. lexes_back ns v"
  shows "tokenize (join_comma (map (\<lambda>t. case t of None \<Rightarrow> lit ''null'' | Some x \<Rightarrow> x)
                                 (map (serialize ns) vs)) @ s)
         = map_option ((@) (join_tokens (map tokens_of vs))) (tokenize s)"
  using assms
proof (induction vs rule: induct_list012)
  case 1
  show ?case by (cases "tokenize s") simp_all
next
  case (2 x)
  then obtain out where "serialize ns x = Some out"
    "\<forall>s. tokenize (out @ s) = map_option ((@) (tokens_of x)) (tokenize s)"
    by (auto simp: lexes_back_def)
  then show ?case by simp
next
  case (3 x y zs)
  from "3.prems" obtain out where x: "serialize ns x = Some out"
    "\<forall>s. tokenize (out @ s) = map_option ((@) (tokens_of x)) (tokenize s)"
    by (auto simp: lexes_back_def)
  from "3.prems" have "\<forall>v\<in>set (y # zs). lexes_back ns v" by simp
  from "3.IH"(2) [OF this]
  have ih: "tokenize (join_comma (map (\<lambda>t. case t of None \<Rightarrow> lit ''null'' | Some x \<Rightarrow> x)
                                 (map (serialize ns) (y # zs))) @ s)
         = map_option ((@) (join_tokens (map tokens_of (y # zs)))) (tokenize s)" .
  show ?case
    using x ih by (cases "tokenize s") (simp_all add: tokenize_punct)
qed

lemma members_text:
  "List.map_filter (\<lambda>kt. map_option (\<lambda>x. quote (fst kt) @ 0x3A # x) (snd kt))
     (map (map_prod id (serialize ns)) kvs)
   = List.map_filter (\<lambda>kv. map_option (\<lambda>x. quote (fst kv) @ 0x3A # x) (serialize ns (snd kv))) kvs"
  by (induction kvs) (simp_all add: List.map_filter_simps split: option.splits)

lemma members_tokens:
  "map (\<lambda>kt. TSTRING (fst kt) # COLON # snd kt) (map (map_prod id tokens_of) kvs)
   = map (\<lambda>kv. TSTRING (fst kv) # COLON # tokens_of (snd kv)) kvs"
  by simp

lemma lexes_back_members:
  assumes "\<forall>kv\<in>set kvs. lexes_back ns (snd kv)"
  shows "tokenize (join_comma (List.map_filter
                     (\<lambda>kv. map_option (\<lambda>x. quote (fst kv) @ 0x3A # x) (serialize ns (snd kv))) kvs) @ s)
         = map_option ((@) (join_tokens (map (\<lambda>kv. TSTRING (fst kv) # COLON # tokens_of (snd kv)) kvs)))
             (tokenize s)"
  using assms
proof (induction kvs rule: induct_list012)
  case 1
  show ?case by (cases "tokenize s") (simp_all add: List.map_filter_simps)
next
  case (2 x)
  then obtain out where "serialize ns (snd x) = Some out"
    "\<forall>s. tokenize (out @ s) = map_option ((@) (tokens_of (snd x))) (tokenize s)"
    by (auto simp: lexes_back_def)
  then show ?case
    by (cases "tokenize s") (simp_all add: List.map_filter_simps tokenize_quote tokenize_punct)
next
  case (3 x y zs)
  from "3.prems" obtain out where x: "serialize ns (snd x) = Some out"
    "\<forall>s. tokenize (out @ s) = map_option ((@) (tokens_of (snd x))) (tokenize s)"
    by (auto simp: lexes_back_def)
  from "3.prems" obtain outy where y: "serialize ns (snd y) = Some outy"
    by (auto simp: lexes_back_def)
  from "3.prems" have "\<forall>kv\<in>set (y # zs). lexes_back ns (snd kv)" by simp
  from "3.IH"(2) [OF this]
  have ih: "tokenize (join_comma (List.map_filter
                     (\<lambda>kv. map_option (\<lambda>x. quote (fst kv) @ 0x3A # x) (serialize ns (snd kv))) (y # zs)) @ s)
         = map_option ((@) (join_tokens (map (\<lambda>kv. TSTRING (fst kv) # COLON # tokens_of (snd kv)) (y # zs))))
             (tokenize s)" .
  show ?case
    using x y ih
    by (cases "tokenize s") (simp_all add: List.map_filter_simps tokenize_quote tokenize_punct)
qed

lemma storable_lexes_back: "storable v \<Longrightarrow> lexes_back ns v"
proof (induction v)
  case Undefined
  then show ?case by simp
next
  case Null
  show ?case
    unfolding lexes_back_def
    by (intro exI [of _ "lit ''null''"] conjI allI) (simp, case_tac "tokenize s", simp_all add: tokenize_words)
next
  case (Boolean b)
  show ?case
    unfolding lexes_back_def
    by (intro exI [of _ "if b then lit ''true'' else lit ''false''"] conjI allI)
       (simp, case_tac "tokenize s", simp_all add: tokenize_words)
next
  case (Number n)
  then show ?case by simp
next
  case (String str)
  show ?case
    unfolding lexes_back_def
    by (intro exI [of _ "quote str"] conjI allI) (simp, case_tac "tokenize s", simp_all add: tokenize_quote)
next
  case (Array vs)
  from Array.prems have "\<forall>v\<in>set vs. storable v" by (simp add: list_all_iff)
  with Array.IH have all: "\<forall>v\<in>set vs. lexes_back ns v" by blast
  have "tokenize ((0x5B # join_comma (map (\<lambda>t. case t of None \<Rightarrow> lit ''null'' | Some x \<Rightarrow> x)
                               (map (serialize ns) vs)) @ [0x5D]) @ s)
        = map_option ((@) (tokens_of (Array vs))) (tokenize s)" for s
    using lexes_back_elements [OF all, of "0x5D # s"]
    by (cases "tokenize s") (simp_all add: tokenize_punct)
  then show ?case
    unfolding lexes_back_def by (intro exI conjI allI) (rule serialize.simps, assumption)
next
  case (Object kvs)
  from Object.prems have "\<forall>kv\<in>set kvs. storable (snd kv)" by (auto simp: list_all_iff)
  with Object.IH have all: "\<forall>kv\<in>set kvs. lexes_back ns (snd kv)"
    by (blast intro: snds.intros)
  have "tokenize ((0x7B # join_comma (List.map_filter (\<lambda>kt. map_option (\<lambda>x. quote (fst kt) @ 0x3A # x) (snd kt))
                               (map (map_prod id (serialize ns)) kvs)) @ [0x7D]) @ s)
        = map_option ((@) (tokens_of (Object kvs))) (tokenize s)" for s
    unfolding members_text tokens_of.simps members_tokens
    using lexes_back_members [OF all, of "0x7D # s"]
    by (cases "tokenize s") (simp_all add: tokenize_punct)
  then show ?case
    unfolding lexes_back_def by (intro exI conjI allI) (rule serialize.simps, assumption)
qed

lemma update_new_key: "k \<notin> fst ` set al \<Longrightarrow> AList.update k v al = al @ [(k, v)]"
  by (induction al) auto

lemma assign_all_new_keys:
  "distinct (map fst (al @ kvs)) \<Longrightarrow> assign_all kvs al = al @ kvs"
proof (induction kvs arbitrary: al)
  case Nil
  show ?case by (simp add: assign_all_def)
next
  case (Cons kv kvs)
  from Cons.prems have new: "fst kv \<notin> fst ` set al" by auto
  from Cons.prems have "distinct (map fst ((al @ [kv]) @ kvs))" by simp
  from Cons.IH [OF this] have "assign_all kvs (al @ [kv]) = al @ kv # kvs" by simp
  moreover have "assign_all (kv # kvs) al = assign_all kvs (AList.update (fst kv) (snd kv) al)"
    by (simp add: assign_all_def)
  ultimately show ?case using update_new_key [OF new, of "snd kv"] by simp
qed

lemma tokens_of_first:
  "storable v \<Longrightarrow> \<exists>t r. tokens_of v = t # r \<and> t \<noteq> RBRACK \<and> t \<noteq> RBRACE"
  by (cases v) auto

lemma parse_elements_step:
  assumes "parse_value (toks @ COMMA # rest) = Some (x, COMMA # rest)" and "toks \<noteq> []"
    and "parse_elements rest = Some (xs, ts)"
  shows "parse_elements (toks @ COMMA # rest) = Some (x # xs, ts)"
proof -
  from assms(2) have l: "length (COMMA # rest) < length (toks @ COMMA # rest)" by simp
  show ?thesis
    by (subst parse_elements.simps) (simp add: assms(1,3) l del: length_append list.size)
qed

lemma parse_elements_last:
  assumes "parse_value (toks @ RBRACK # ts) = Some (x, RBRACK # ts)" and "toks \<noteq> []"
  shows "parse_elements (toks @ RBRACK # ts) = Some ([x], ts)"
proof -
  from assms(2) have l: "length (RBRACK # ts) < length (toks @ RBRACK # ts)" by simp
  show ?thesis
    by (subst parse_elements.simps) (simp add: assms(1) l del: length_append list.size)
qed

lemma parse_members_step:
  assumes "parse_value (toks @ COMMA # rest) = Some (x, COMMA # rest)" and "toks \<noteq> []"
    and "parse_members rest = Some (xs, ts)"
  shows "parse_members (TSTRING k # COLON # toks @ COMMA # rest) = Some ((k, x) # xs, ts)"
proof -
  from assms(2) have l: "length (COMMA # rest) < length (toks @ COMMA # rest)" by simp
  show ?thesis
    by (subst parse_members.simps) (simp add: assms(1,3) l del: length_append list.size)
qed

lemma parse_members_last:
  assumes "parse_value (toks @ RBRACE # ts) = Some (x, RBRACE # ts)" and "toks \<noteq> []"
  shows "parse_members (TSTRING k # COLON # toks @ RBRACE # ts) = Some ([(k, x)], ts)"
proof -
  from assms(2) have l: "length (RBRACE # ts) < length (toks @ RBRACE # ts)" by simp
  show ?thesis
    by (subst parse_members.simps) (simp add: assms(1) l del: length_append list.size)
qed

lemma parses_back_elements:
  assumes "\<forall>v\<in>set vs. storable v \<and> parses_back v" and "vs \<noteq> []"
  shows "parse_elements (join_tokens (map tokens_of vs) @ RBRACK # ts) = Some (vs, ts)"
  using assms
proof (induction vs rule: induct_list012)
  case 1
  then show ?case by simp
next
  case (2 x)
  then have p: "parse_value (tokens_of x @ RBRACK # ts) = Some (x, RBRACK # ts)"
    by (simp add: parses_back_def)
  from 2 tokens_of_first [of x] have "tokens_of x \<noteq> []" by auto
  from parse_elements_last [OF p this] show ?case by simp
next
  case (3 x y zs)
  define rest where "rest = join_tokens (map tokens_of (y # zs)) @ RBRACK # ts"
  from "3.prems" have p: "parse_value (tokens_of x @ COMMA # rest) = Some (x, COMMA # rest)"
    by (simp add: parses_back_def)
  from "3.prems" tokens_of_first [of x] have ne: "tokens_of x \<noteq> []" by auto
  from "3.prems" have "\<forall>v\<in>set (y # zs). storable v \<and> parses_back v" by simp
  from "3.IH"(2) [OF this] have ih: "parse_elements rest = Some (y # zs, ts)"
    by (simp add: rest_def)
  from parse_elements_step [OF p ne ih] show ?case
    by (simp add: rest_def)
qed

lemma parses_back_members:
  assumes "\<forall>kv\<in>set kvs. storable (snd kv) \<and> parses_back (snd kv)" and "kvs \<noteq> []"
  shows "parse_members (join_tokens (map (\<lambda>kv. TSTRING (fst kv) # COLON # tokens_of (snd kv)) kvs)
                          @ RBRACE # ts) = Some (kvs, ts)"
  using assms
proof (induction kvs rule: induct_list012)
  case 1
  then show ?case by simp
next
  case (2 x)
  then have p: "parse_value (tokens_of (snd x) @ RBRACE # ts) = Some (snd x, RBRACE # ts)"
    by (simp add: parses_back_def)
  from 2 tokens_of_first [of "snd x"] have "tokens_of (snd x) \<noteq> []" by auto
  from parse_members_last [OF p this, of "fst x"] show ?case by simp
next
  case (3 x y zs)
  define rest where
    "rest = join_tokens (map (\<lambda>kv. TSTRING (fst kv) # COLON # tokens_of (snd kv)) (y # zs)) @ RBRACE # ts"
  from "3.prems" have p: "parse_value (tokens_of (snd x) @ COMMA # rest) = Some (snd x, COMMA # rest)"
    by (simp add: parses_back_def)
  from "3.prems" tokens_of_first [of "snd x"] have ne: "tokens_of (snd x) \<noteq> []" by auto
  from "3.prems" have "\<forall>kv\<in>set (y # zs). storable (snd kv) \<and> parses_back (snd kv)" by simp
  from "3.IH"(2) [OF this] have ih: "parse_members rest = Some (y # zs, ts)"
    by (simp add: rest_def)
  from parse_members_step [OF p ne ih, of "fst x"] show ?case
    by (simp add: rest_def)
qed

lemma storable_parses_back: "storable v \<Longrightarrow> parses_back v"
proof (induction v)
  case Undefined
  then show ?case by simp
next
  case Null
  show ?case by (simp add: parses_back_def parse_value.simps)
next
  case (Boolean b)
  show ?case by (simp add: parses_back_def parse_value.simps)
next
  case (Number n)
  then show ?case by simp
next
  case (String str)
  show ?case by (simp add: parses_back_def parse_value.simps)
next
  case (Array vs)
  from Array.prems have st: "\<forall>v\<in>set vs. storable v" by (simp add: list_all_iff)
  with Array.IH have all: "\<forall>v\<in>set vs. storable v \<and> parses_back v" by blast
  show ?case
  proof (cases vs)
    case Nil
    then show ?thesis by (simp add: parses_back_def parse_value.simps)
  next
    case (Cons x xs)
    from st Cons tokens_of_first [of x] obtain t r where
      t: "tokens_of x = t # r" "t \<noteq> RBRACK" by auto
    have nx: "\<not> next_is RBRACK (join_tokens (map tokens_of vs) @ RBRACK # ts)" for ts
      using t Cons by (cases xs) auto
    have "vs \<noteq> []" using Cons by simp
    from parses_back_elements [OF all this]
    show ?thesis
      by (simp add: parses_back_def parse_value.simps nx)
  qed
next
  case (Object kvs)
  from Object.prems have st: "\<forall>kv\<in>set kvs. storable (snd kv)" by (auto simp: list_all_iff)
  with Object.IH have all: "\<forall>kv\<in>set kvs. storable (snd kv) \<and> parses_back (snd kv)"
    by (blast intro: snds.intros)
  from Object.prems have "distinct (map fst ([] @ kvs))" by simp
  from assign_all_new_keys [OF this] have obj: "assign_all kvs [] = kvs" by simp
  show ?case
  proof (cases kvs)
    case Nil
    then show ?thesis by (simp add: parses_back_def parse_value.simps)
  next
    case (Cons x xs)
    have nx: "\<not> next_is RBRACE (join_tokens (map (\<lambda>kv. TSTRING (fst kv) # COLON # tokens_of (snd kv)) kvs)
                                   @ RBRACE # ts)" for ts
      using Cons by (cases xs) auto
    have "kvs \<noteq> []" using Cons by simp
    from parses_back_members [OF all this]
    show ?thesis
      unfolding parses_back_def tokens_of.simps members_tokens
      by (simp add: parse_value.simps nx obj)
  qed
qed

lemma tokenize_Nil: "tokenize [] = Some []"
  by (simp add: tokenize.simps)

lemma JSON_round_trip:
  assumes "storable v"
  shows "\<exists>out. JSON_stringify ns v = Some out \<and> out \<noteq> [] \<and> JSON_parse out = Some v"
proof -
  from storable_lexes_back [OF assms, of ns] obtain out where
    out: "serialize ns v = Some out"
    "\<forall>s. tokenize (out @ s) = map_option ((@) (tokens_of v)) (tokenize s)"
    by (auto simp: lexes_back_def)
  from out(2) have tk: "tokenize out = Some (tokens_of v)"
    using tokenize_Nil by (metis append_Nil2 option.simps(9))
  from storable_parses_back [OF assms] have "parse_value (tokens_of v @ []) = Some (v, [])"
    unfolding parses_back_def by blast
  then have "JSON_parse out = Some v"
    by (simp add: JSON_parse_def tk)
  moreover have "out \<noteq> []"
  proof
    assume "out = []"
    with tk tokens_of_first [OF assms] show False by (simp add: tokenize_Nil)
  qed
  ultimately show ?thesis using out(1) by (simp add: JSON_stringify_def)
qed

section \<open>Persisting and reloading the collection\<close>

lemma storable_risk_item: "storable (risk_item_to_js it)"
  by (simp add: risk_item_to_js_def lit_def)

lemma storable_disposition: "storable (disposition_to_js d)"
  by (simp add: disposition_to_js_def lit_def)

lemma storable_ai_review: "distinct (map fst (actions r)) \<Longrightarrow> storable (ai_review_to_js r)"
  by (simp add: ai_review_to_js_def lit_def list_all_iff storable_risk_item storable_disposition comp_def)

lemma storable_project: "actions_wf p \<Longrightarrow> storable (project_to_js p)"
  by (cases "aiReview p") (simp_all add: project_to_js_def actions_wf_def lit_def storable_ai_review)

lemma storable_projects: "list_all actions_wf ps \<Longrightarrow> storable (projects_to_js ps)"
  by (simp add: projects_to_js_def list_all_iff storable_project)

lemma save_actions_distinct:
  "distinct (map fst acts) \<Longrightarrow> distinct (map fst (save_actions form acts))"
proof -
  have "distinct (map fst acts) \<Longrightarrow> distinct (map fst (foldl (save_select form) acts sels))" for sels
    by (induction sels arbitrary: acts) (simp_all add: save_select_update distinct_update)
  then show "distinct (map fst acts) \<Longrightarrow> distinct (map fst (save_actions form acts))"
    by (simp add: save_actions_def)
qed

lemma update_found_wf:
  assumes "list_all actions_wf projects"
    and "\<And>p. find_project ident projects = Some p \<Longrightarrow> actions_wf (f p)"
  shows "list_all actions_wf (update_found ident f projects)"
proof (cases "find_project ident projects")
  case None
  then have "update_found ident f projects = projects"
    by (induction projects) (auto simp: find_project_def split: if_splits)
  with assms(1) show ?thesis by simp
next
  case (Some p)
  from find_project_split [OF Some] obtain before after where
    "projects = before @ p # after" "\<forall>f. update_found ident f projects = before @ f p # after"
    by blast
  with assms(1) assms(2) [OF Some] show ?thesis by auto
qed

lemma reachable_all_wf: "reachable st \<Longrightarrow> all_wf st"
proof (induction rule: reachable.induct)
  case r_init
  show ?case by (simp add: all_wf_def initial_state_def)
next
  case (r_create st form src now)
  then show ?case
    by (auto simp: all_wf_def handleCreateProject_def Let_def alert_def saveProjects_st_def
          getProjects_st_def actions_wf_def)
next
  case (r_start st projectId p now)
  have "list_all actions_wf (update_found projectId (\<lambda>p. p\<lparr>status := AI_REVIEWING, updatedAt := now\<rparr>) (storage st))"
    using r_start.IH
    by (intro update_found_wf) (auto simp: all_wf_def actions_wf_def list_all_iff dest!: find_project_split)
  with r_start.IH show ?case
    by (auto simp: startAIReview_def getProjects_st_def saveProjects_st_def Let_def all_wf_def
          split: option.splits)
next
  case (r_complete st k d now)
  show ?case
  proof (cases "k < length (timers st)")
    case False
    with r_complete.IH show ?thesis by (simp add: run_timer_def)
  next
    case True
    then have "timers st ! k \<in> set (timers st)" by simp
    with r_complete.IH have snap: "list_all actions_wf (fst (timers st ! k))"
      by (simp add: all_wf_def list_all_iff)
    have "list_all actions_wf (update_found (snd (timers st ! k))
            (\<lambda>p. p\<lparr>aiReview := Some (createDummyAIResults d), status := AI_COMPLETED, updatedAt := now\<rparr>)
            (fst (timers st ! k)))"
      using snap by (intro update_found_wf) (simp_all add: actions_wf_def createDummyAIResults_def Let_def)
    moreover have "list_all (\<lambda>t. list_all actions_wf (fst t)) (take k (timers st) @ drop (Suc k) (timers st))"
      using r_complete.IH by (auto simp: all_wf_def list_all_iff dest: in_set_takeD in_set_dropD)
    ultimately show ?thesis using True
      by (simp add: run_timer_def review_callback_def saveProjects_st_def Let_def all_wf_def)
  qed
next
  case (r_save st projectId form now)
  show ?case
  proof (cases "find_project projectId (storage st)")
    case None
    with r_save.IH show ?thesis by (simp add: saveRiskActions_def getProjects_st_def)
  next
    case (Some p)
    show ?thesis
    proof (cases "aiReview p")
      case None
      with r_save.IH Some show ?thesis by (simp add: saveRiskActions_def getProjects_st_def)
    next
      case (Some review)
      from \<open>find_project projectId (storage st) = Some p\<close> have "p \<in> set (storage st)"
        using find_project_split by fastforce
      with r_save.IH Some have "distinct (map fst (actions review))"
        by (auto simp: all_wf_def list_all_iff actions_wf_def)
      then have ok: "actions_wf (p\<lparr>aiReview := Some (review\<lparr>actions := save_actions form (actions review)\<rparr>), updatedAt := now\<rparr>)"
        by (simp add: actions_wf_def save_actions_distinct)
      have "list_all actions_wf (update_found projectId
              (\<lambda>p. p\<lparr>aiReview := Some (review\<lparr>actions := save_actions form (actions review)\<rparr>), updatedAt := now\<rparr>)
              (storage st))"
        using r_save.IH ok \<open>find_project projectId (storage st) = Some p\<close>
        by (intro update_found_wf) (simp_all add: all_wf_def)
      with r_save.IH Some \<open>find_project projectId (storage st) = Some p\<close> show ?thesis
        by (simp add: saveRiskActions_def getProjects_st_def saveProjects_st_def alert_def Let_def all_wf_def)
    qed
  qed
next
  case (r_submit st projectId now)
  have "list_all actions_wf (update_found projectId (\<lambda>p. p\<lparr>status := DEPT_REVIEWING, updatedAt := now\<rparr>) (storage st))"
    using r_submit.IH
    by (intro update_found_wf) (auto simp: all_wf_def actions_wf_def list_all_iff dest!: find_project_split)
  with r_submit.IH show ?case
    by (auto simp: submitForDepartmentReview_def getProjects_st_def saveProjects_st_def alert_def Let_def
          all_wf_def split: option.splits)
qed

lemma reachable_actions_wf: "reachable st \<Longrightarrow> list_all actions_wf (storage st)"
  using reachable_all_wf by (simp add: all_wf_def)

text \<open>
  C8: for every collection of project records in which the actions of each review have
  each key once (as in every collection that the operations reach, by
  \<open>reachable_actions_wf\<close>), \<open>getProjects\<close> after \<open>saveProjects\<close> gives the collection
  back, whatever was stored before.
\<close>

theorem persist_reload:
  assumes "list_all actions_wf ps"
  shows "getProjects (saveProjects ns (projects_to_js ps) item) = projects_to_js ps"
proof -
  from JSON_round_trip [OF storable_projects [OF assms], of ns] obtain out where
    "JSON_stringify ns (projects_to_js ps) = Some out" "out \<noteq> []" "JSON_parse out = Some (projects_to_js ps)"
    by blast
  then show ?thesis by (simp add: getProjects_def saveProjects_def)
qed

lemma demo_saved_wf: "list_all actions_wf (storage demo_saved)"
  by code_simp

theorem persist_reload_witness:
  "list_all actions_wf (storage demo_saved)
   \<and> getProjects (saveProjects demo_ns (projects_to_js (storage demo_saved)) None)
       = projects_to_js (storage demo_saved)"
  using persist_reload [OF demo_saved_wf, of demo_ns None] demo_saved_wf by simp

text \<open>
  \<open>getProjects\<close> gives the empty list when the key is absent, when the stored text is empty
  and when it is not JSON.
\<close>

lemma getProjects_fallback:
  "getProjects None = Array []"
  "getProjects (Some []) = Array []"
  "JSON_parse stored = None \<Longrightarrow> getProjects (Some stored) = Array []"
  by (simp_all add: getProjects_def)

text \<open>
  C10 does not hold of the code: a stored text that is JSON but not an array (\<open>null\<close>,
  \<open>{}\<close>) is returned as it parses, not as a list and not replaced by the empty list, and
  the \<open>projects.find\<close> of the operation that called \<open>getProjects\<close> then throws.
\<close>

theorem getProjects_not_a_list:
  "getProjects (Some (lit ''null'')) = Null
   \<and> getProjects (Some (lit ''{}'')) = Object []
   \<and> \<not> is_array (getProjects (Some (lit ''{}'')))
   \<and> projects_find (getProjects (Some (lit ''null''))) (lit ''P1'') = Inl TypeError
   \<and> projects_find (getProjects (Some (lit ''{}''))) (lit ''P1'') = Inl TypeError"
  by code_simp

section \<open>Validation of the request\<close>

lemma nonempty_text_iff: "nonempty_text v \<longleftrightarrow> truthy v \<and> is_string v"
  by (cases v) (simp_all add: nonempty_text_def)

lemma body_fields:
  "get_prop (js_or req_body (Object [])) k = Inr (own_prop (js_or req_body (Object [])) k)"
  by (cases req_body) (simp_all add: js_or_def own_prop_def)

lemma review_try_invalid:
  assumes "\<not> nonempty_text (own_prop (js_or req_body (Object [])) (lit ''content''))"
  shows "review_try ns callLLM req_body = (Inr (error_response 400 msg_content_empty), [])"
  using assms
  by (simp add: review_try_def Let_def body_fields bind_result_def nonempty_text_iff)

lemma review_try_no_prompt:
  assumes "nonempty_text (own_prop (js_or req_body (Object [])) (lit ''content''))"
    and "buildPrompt ns (request_params req_body) = Inl e"
  shows "review_try ns callLLM req_body = (Inl e, [])"
  using assms
  by (simp add: review_try_def Let_def body_fields bind_result_def nonempty_text_iff request_params_def)

lemma review_try_prompt:
  assumes "nonempty_text (own_prop (js_or req_body (Object [])) (lit ''content''))"
    and "buildPrompt ns (request_params req_body) = Inr prompt"
  shows "\<exists>r. review_try ns callLLM req_body = (r, [prompt])
            \<and> r \<noteq> Inr (error_response 400 msg_content_empty)"
  using assms
  by (auto simp add: review_try_def Let_def body_fields bind_result_def nonempty_text_iff
        request_params_def error_response_def split: sum.splits option.splits)

text \<open>
  C4: the response is the 400 response with the error text of the source exactly when the
  \<open>content\<close> of the body is not a non-empty string (missing, empty, or of another type);
  then the backend is not called. With a non-empty string the handler goes on to build the
  prompt: when that gives a prompt, the backend is called once, with it; when it throws
  (the business type or the jurisdiction has no string), the catch answers 500 and the
  backend is not called.
\<close>

theorem content_validation:
  "(fst (review_handler ns callLLM req_body) = error_response 400 msg_content_empty
      \<longleftrightarrow> \<not> nonempty_text (own_prop (js_or req_body (Object [])) (lit ''content'')))
   \<and> (\<not> nonempty_text (own_prop (js_or req_body (Object [])) (lit ''content''))
        \<longrightarrow> snd (review_handler ns callLLM req_body) = [])
   \<and> (nonempty_text (own_prop (js_or req_body (Object [])) (lit ''content''))
        \<longrightarrow> (case buildPrompt ns (request_params req_body) of
               Inl e \<Rightarrow> review_handler ns callLLM req_body = (error_response 500 msg_internal, [])
             | Inr prompt \<Rightarrow> snd (review_handler ns callLLM req_body) = [prompt]))"
proof (cases "nonempty_text (own_prop (js_or req_body (Object [])) (lit ''content''))")
  case False
  from review_try_invalid [OF False, of ns callLLM] show ?thesis
    using False by (simp add: review_handler_def)
next
  case True
  show ?thesis
  proof (cases "buildPrompt ns (request_params req_body)")
    case (Inl e)
    from review_try_no_prompt [OF True Inl, of callLLM]
    have h: "review_handler ns callLLM req_body = (error_response 500 msg_internal, [])"
      by (simp add: review_handler_def)
    then have "fst (review_handler ns callLLM req_body) \<noteq> error_response 400 msg_content_empty"
      by (simp add: error_response_def)
    with True Inl h show ?thesis by simp
  next
    case (Inr prompt)
    from review_try_prompt [OF True Inr, of callLLM] obtain r where
      r: "review_try ns callLLM req_body = (r, [prompt])"
         "r \<noteq> Inr (error_response 400 msg_content_empty)"
      by blast
    have "fst (review_handler ns callLLM req_body) \<noteq> error_response 400 msg_content_empty"
      using r by (cases r) (auto simp: review_handler_def error_response_def)
    moreover have "snd (review_handler ns callLLM req_body) = [prompt]"
      using r(1) by (cases r) (simp_all add: review_handler_def)
    ultimately show ?thesis using True Inr by simp
  qed
qed

lemma to_string_examples:
  "to_string demo_ns (Array [String (lit ''a''), Null, Array [Boolean True, Undefined], Object []])
     = Inr (lit ''a,,true,,[object Object]'')"
  "to_string demo_ns (Object [(lit ''toString'', Number (Fin 1))]) = Inl TypeError"
  "buildPrompt demo_ns (request_params odd_body) = Inl TypeError"
  "buildPrompt demo_ns (request_params demo_body)
     = Inr (prompt_head @ lit ''platform'' @ prompt_before_jurisdiction @ lit ''cn''
            @ prompt_before_content @ lit ''no sales outside'' @ prompt_tail)"
  by code_simp+

theorem content_validation_witness:
  "\<not> nonempty_text (own_prop (js_or (Object [(lit ''content'', String [])]) (Object [])) (lit ''content''))
   \<and> fst (review_handler demo_ns demo_backend (Object [(lit ''content'', String [])]))
       = error_response 400 msg_content_empty
   \<and> snd (review_handler demo_ns demo_backend (Object [(lit ''content'', String [])])) = []
   \<and> nonempty_text (own_prop (js_or demo_body (Object [])) (lit ''content''))
   \<and> snd (review_handler demo_ns demo_backend demo_body)
       = [prompt_head @ lit ''platform'' @ prompt_before_jurisdiction @ lit ''cn''
          @ prompt_before_content @ lit ''no sales outside'' @ prompt_tail]
   \<and> nonempty_text (own_prop (js_or odd_body (Object [])) (lit ''content''))
   \<and> review_handler demo_ns demo_backend odd_body = (error_response 500 msg_internal, [])"
proof -
  have bad: "\<not> nonempty_text (own_prop (js_or (Object [(lit ''content'', String [])]) (Object [])) (lit ''content''))"
    by code_simp
  have good: "nonempty_text (own_prop (js_or demo_body (Object [])) (lit ''content''))"
    by code_simp
  have odd: "nonempty_text (own_prop (js_or odd_body (Object [])) (lit ''content''))"
    by code_simp
  have p: "buildPrompt demo_ns (request_params demo_body)
     = Inr (prompt_head @ lit ''platform'' @ prompt_before_jurisdiction @ lit ''cn''
            @ prompt_before_content @ lit ''no sales outside'' @ prompt_tail)"
    by code_simp
  have q: "buildPrompt demo_ns (request_params odd_body) = Inl TypeError"
    by code_simp
  note b = content_validation [of demo_ns demo_backend "Object [(lit ''content'', String [])]"]
  note g = content_validation [of demo_ns demo_backend demo_body]
  note o = content_validation [of demo_ns demo_backend odd_body]
  from b bad have "fst (review_handler demo_ns demo_backend (Object [(lit ''content'', String [])]))
       = error_response 400 msg_content_empty"
    by blast
  moreover from b bad have "snd (review_handler demo_ns demo_backend (Object [(lit ''content'', String [])])) = []"
    by blast
  moreover from g good have "snd (review_handler demo_ns demo_backend demo_body)
       = [prompt_head @ lit ''platform'' @ prompt_before_jurisdiction @ lit ''cn''
          @ prompt_before_content @ lit ''no sales outside'' @ prompt_tail]"
    by (simp only: p sum.case simp_thms)
  moreover from o odd have "review_handler demo_ns demo_backend odd_body = (error_response 500 msg_internal, [])"
    by (simp only: q sum.case simp_thms)
  ultimately show ?thesis using bad good odd by simp
qed

end
